theory Spec2Isabelle
  imports Main "HOL-Library.AList" "HOL-Library.Sublist" "HOL-Library.Char_ord" "HOL-Library.List_Lexorder"
begin

section \<open>Data model\<close>

text \<open>
  The program passes Python dicts around.  A normalised issue is the dict that
  \<^verbatim>\<open>JiraClient.parse_issue\<close> returns: fourteen fixed keys.  It is a record here,
  polymorphic in the type of the field values: \<^verbatim>\<open>parse_issue\<close> copies JSON values out
  of the raw record, and the grouping and rendering code treats every field as a string.
\<close>

record 'v issue =
  key :: 'v
  summary :: 'v
  description :: 'v
  status :: 'v
  status_category :: 'v
  issuetype :: 'v
  epic_link :: 'v
  epic_name :: 'v
  parent_key :: 'v
  parent_summary :: 'v
  assignee :: 'v
  created :: 'v
  updated :: 'v
  sprint :: 'v

text \<open>
  The dict that \<^verbatim>\<open>group_issues_by_parent\<close> builds for one epic has the keys
  \<^verbatim>\<open>epic_key\<close>, \<^verbatim>\<open>epic_name\<close> and \<^verbatim>\<open>children\<close>.  The report generator also reads
  an optional \<^verbatim>\<open>status\<close> entry with \<^verbatim>\<open>epic_data.get('status')\<close>; \<open>g_status\<close> is that
  entry, \<open>None\<close> when the key is absent.
\<close>

record epic_group =
  g_epic_key :: string
  g_epic_name :: string
  children :: "string issue list"
  g_status :: "string option"

text \<open>
  A Python dict keeps its keys in insertion order and the report iterates over
  \<^verbatim>\<open>epics_dict.items()\<close>, so a dict is an association list here; \<^verbatim>\<open>d[k] = v\<close> is
  \<^const>\<open>AList.update\<close> (in place for a key already there, at the end otherwise) and a
  lookup is \<^const>\<open>map_of\<close>.
\<close>

type_synonym ('k, 'v) dict = "('k \<times> 'v) list"

text \<open>
  The grouped data: \<^verbatim>\<open>{"epics": ..., "standalone": ...}\<close>, to which
  \<^verbatim>\<open>fetch_sprint_data\<close> adds the entry \<^verbatim>\<open>epic_details\<close>.  An absent
  \<^verbatim>\<open>epic_details\<close> is read as the empty dict (\<^verbatim>\<open>grouped_data.get('epic_details', {})\<close>),
  so the empty list stands for it.
\<close>

record grouped_data =
  epics :: "(string, epic_group) dict"
  standalone :: "string issue list"
  epic_details :: "(string, string issue) dict"

section \<open>Strings\<close>

text \<open>
  Strings are lists of 8-bit characters; the model is that of the program on ASCII text.
  \<^verbatim>\<open>str.lower()\<close> maps \<^verbatim>\<open>A\<close>..\<^verbatim>\<open>Z\<close> to \<^verbatim>\<open>a\<close>..\<^verbatim>\<open>z\<close> and leaves every other
  ASCII character alone.  An upper-case letter and its lower-case letter differ by 32,
  which is bit 5 of the character code: clear in \<^verbatim>\<open>A\<close>..\<^verbatim>\<open>Z\<close>, set in
  \<^verbatim>\<open>a\<close>..\<^verbatim>\<open>z\<close>.
\<close>

definition is_upper :: "char \<Rightarrow> bool" where
  "is_upper c \<longleftrightarrow> CHR ''A'' \<le> c \<and> c \<le> CHR ''Z''"

definition is_lower :: "char \<Rightarrow> bool" where
  "is_lower c \<longleftrightarrow> CHR ''a'' \<le> c \<and> c \<le> CHR ''z''"

definition lower_char :: "char \<Rightarrow> char" where
  "lower_char c =
     (if is_upper c
      then (case c of Char b0 b1 b2 b3 b4 b5 b6 b7 \<Rightarrow> Char b0 b1 b2 b3 b4 True b6 b7)
      else c)"

definition upper_char :: "char \<Rightarrow> char" where
  "upper_char c =
     (if is_lower c
      then (case c of Char b0 b1 b2 b3 b4 b5 b6 b7 \<Rightarrow> Char b0 b1 b2 b3 b4 False b6 b7)
      else c)"

definition lower :: "string \<Rightarrow> string" where
  "lower s = map lower_char s"

text \<open>Equality of two strings up to the case of their letters.\<close>

definition eq_ignore_case :: "string \<Rightarrow> string \<Rightarrow> bool" where
  "eq_ignore_case s t \<longleftrightarrow> list_all2 (\<lambda>a b. lower_char a = lower_char b) s t"

section \<open>Grouping: \<^verbatim>\<open>JiraClient.group_issues_by_parent\<close>\<close>

text \<open>
  One iteration of the loop over \<^verbatim>\<open>issues\<close>.  An issue of type \<^verbatim>\<open>Epic\<close> is registered
  (overwriting an entry of the same key, children included) and the loop continues.
  Otherwise, a non-empty \<^verbatim>\<open>epic_link\<close> creates the group if it is not there and appends
  the issue to its children; an empty one appends the issue to \<^verbatim>\<open>standalone\<close>.
\<close>

definition group_step :: "string issue \<Rightarrow> grouped_data \<Rightarrow> grouped_data" where
  "group_step issue st =
     (if issuetype issue = ''Epic'' then
        st\<lparr>epics := AList.update (key issue)
              \<lparr>g_epic_key = key issue,
               g_epic_name = (if epic_name issue \<noteq> [] then epic_name issue else summary issue),
               children = [],
               g_status = None\<rparr> (epics st)\<rparr>
      else
        let epic_key = epic_link issue in
        if epic_key \<noteq> [] then
          let epics1 =
            (if epic_key \<notin> fst ` set (epics st) then
               AList.update epic_key
                 \<lparr>g_epic_key = epic_key, g_epic_name = [], children = [], g_status = None\<rparr>
                 (epics st)
             else epics st)
          in st\<lparr>epics := AList.map_entry epic_key
                   (\<lambda>g. g\<lparr>children := children g @ [issue]\<rparr>) epics1\<rparr>
        else st\<lparr>standalone := standalone st @ [issue]\<rparr>)"

definition group_issues_by_parent :: "string issue list \<Rightarrow> grouped_data" where
  "group_issues_by_parent issues =
     fold group_step issues \<lparr>epics = [], standalone = [], epic_details = []\<rparr>"

section \<open>Epic status: \<^verbatim>\<open>SprintReportGenerator.determine_epic_status\<close>\<close>

definition determine_epic_status :: "epic_group \<Rightarrow> string" where
  "determine_epic_status epic_data =
     (let cs = children epic_data in
      if cs = [] then ''Unknown''
      else
        let done_count =
          sum_list (map (\<lambda>child. (1::nat))
            (filter (\<lambda>child. lower (status_category child) = ''done'') cs))
        in if done_count = length cs then ''Done'' else ''In Progress'')"

section \<open>Reconciliation: \<^verbatim>\<open>SprintReportGenerator.fetch_sprint_data\<close>\<close>

text \<open>
  \<^verbatim>\<open>fetch_sprint_data\<close> runs the query, normalises every raw issue with
  \<^verbatim>\<open>parse_issue\<close> and works on the list \<^verbatim>\<open>parsed_issues\<close> from there on.  The model
  starts at that list.  The supplementary query for the epics that are only linked to,
  composed with \<^verbatim>\<open>parse_issue\<close>, is the parameter \<open>fetch_epics\<close>: a function of the
  set of keys asked for, so that a statement for every \<open>fetch_epics\<close> is a statement
  for every answer of the server.
\<close>

definition valid_issue_keys :: "string issue list \<Rightarrow> string set" where
  "valid_issue_keys parsed_issues = set (map key parsed_issues)"

definition epics_in_jql :: "string issue list \<Rightarrow> string set" where
  "epics_in_jql parsed_issues =
     set (map key (filter (\<lambda>issue. issuetype issue = ''Epic'') parsed_issues))"

definition epic_links_from_children :: "string issue list \<Rightarrow> string set" where
  "epic_links_from_children parsed_issues =
     set (filter (\<lambda>epic_link. epic_link \<noteq> []) (map epic_link parsed_issues))"

definition epic_keys_to_fetch :: "string issue list \<Rightarrow> string set" where
  "epic_keys_to_fetch parsed_issues =
     epic_links_from_children parsed_issues - epics_in_jql parsed_issues"

text \<open>
  \<^verbatim>\<open>epic_details\<close>: first the epics of the query, in order, then (only when there is a
  key to fetch) every record of the supplementary answer, stored under its own key.
\<close>

definition collect_epic_details ::
  "string issue list \<Rightarrow> (string set \<Rightarrow> string issue list) \<Rightarrow> (string, string issue) dict" where
  "collect_epic_details parsed_issues fetch_epics =
     (let details0 =
        fold (\<lambda>issue d. if issuetype issue = ''Epic'' then AList.update (key issue) issue d else d)
          parsed_issues []
      in if epic_keys_to_fetch parsed_issues \<noteq> {} then
           fold (\<lambda>epic_data d. AList.update (key epic_data) epic_data d)
             (fetch_epics (epic_keys_to_fetch parsed_issues)) details0
         else details0)"

text \<open>One iteration of the loop that builds \<^verbatim>\<open>filtered_epics\<close>.\<close>

definition filter_epic_step ::
  "string set \<Rightarrow> string set \<Rightarrow> string \<times> epic_group \<Rightarrow>
     (string, epic_group) dict \<Rightarrow> (string, epic_group) dict" where
  "filter_epic_step valid_keys in_jql = (\<lambda>(epic_key, epic_data) filtered_epics.
     if epic_key \<in> in_jql \<or> list_ex (\<lambda>child. key child \<in> valid_keys) (children epic_data) then
       let filtered_children = filter (\<lambda>child. key child \<in> valid_keys) (children epic_data) in
       if filtered_children \<noteq> [] \<or> epic_key \<in> in_jql then
         AList.update epic_key (epic_data\<lparr>children := filtered_children\<rparr>) filtered_epics
       else filtered_epics
     else filtered_epics)"

text \<open>
  Everything \<^verbatim>\<open>fetch_sprint_data\<close> does to the grouped data after
  \<^verbatim>\<open>group_issues_by_parent\<close> has returned it: the epics are filtered, the standalone
  list is trimmed and \<^verbatim>\<open>epic_details\<close> is attached.
\<close>

definition reconcile ::
  "string issue list \<Rightarrow> (string set \<Rightarrow> string issue list) \<Rightarrow> grouped_data \<Rightarrow> grouped_data" where
  "reconcile parsed_issues fetch_epics grouped =
     grouped\<lparr>epics :=
               fold (filter_epic_step (valid_issue_keys parsed_issues) (epics_in_jql parsed_issues))
                 (epics grouped) [],
             standalone :=
               filter (\<lambda>issue. key issue \<in> valid_issue_keys parsed_issues) (standalone grouped),
             epic_details := collect_epic_details parsed_issues fetch_epics\<rparr>"

definition fetch_sprint_data ::
  "string issue list \<Rightarrow> (string set \<Rightarrow> string issue list) \<Rightarrow> grouped_data" where
  "fetch_sprint_data parsed_issues fetch_epics =
     reconcile parsed_issues fetch_epics (group_issues_by_parent parsed_issues)"

section \<open>Epic summaries: \<^verbatim>\<open>SprintReportGenerator.generate_epic_summary\<close>\<close>

subsection \<open>String helpers\<close>

text \<open>\<^verbatim>\<open>sub in s\<close>.\<close>

fun contains :: "string \<Rightarrow> string \<Rightarrow> bool" where
  "contains sub [] = (sub = [])"
| "contains sub (c # cs) = (prefix sub (c # cs) \<or> contains sub cs)"

text \<open>\<^verbatim>\<open>sep.join(parts)\<close>.\<close>

fun join :: "string \<Rightarrow> string list \<Rightarrow> string" where
  "join sep [] = []"
| "join sep [x] = x"
| "join sep (x # y # ys) = x @ sep @ join sep (y # ys)"

definition is_digit :: "char \<Rightarrow> bool" where
  "is_digit c \<longleftrightarrow> CHR ''0'' \<le> c \<and> c \<le> CHR ''9''"

text \<open>
  The ASCII characters that \<^verbatim>\<open>str.strip()\<close> removes and \<^verbatim>\<open>\s\<close> matches: the codes
  9 to 13, 28 to 31 and the space.
\<close>

definition is_space :: "char \<Rightarrow> bool" where
  "is_space c \<longleftrightarrow>
     (CHR 0x09 \<le> c \<and> c \<le> CHR 0x0D) \<or> (CHR 0x1C \<le> c \<and> c \<le> CHR 0x1F) \<or> c = CHR '' ''"

definition strip :: "string \<Rightarrow> string" where
  "strip s = rev (dropWhile is_space (rev (dropWhile is_space s)))"

text \<open>\<^verbatim>\<open>str(n)\<close> of a natural number, as an f-string prints it.\<close>

function str_nat :: "nat \<Rightarrow> string" where
  "str_nat n =
     (if n < 10 then [''0123456789'' ! n]
      else str_nat (n div 10) @ [''0123456789'' ! (n mod 10)])"
  by pat_completeness auto
termination
  by (relation "measure (\<lambda>n. n)") auto

declare str_nat.simps [simp del]

text \<open>
  \<^verbatim>\<open>str.title()\<close>: a letter that follows a letter is lower-cased, any other letter is
  upper-cased; \<open>prev\<close> says whether the character before was a letter.
\<close>

fun title_from :: "bool \<Rightarrow> string \<Rightarrow> string" where
  "title_from prev [] = []"
| "title_from prev (c # cs) =
     (if prev then lower_char c else upper_char c) # title_from (is_upper c \<or> is_lower c) cs"

definition title :: "string \<Rightarrow> string" where
  "title s = title_from False s"

text \<open>
  \<^verbatim>\<open>s.rsplit(' ', 1)\<close>: the text before the last space and the text after it, or the
  string alone when it has no space.
\<close>

definition rsplit_space :: "string \<Rightarrow> string list" where
  "rsplit_space s =
     (if CHR '' '' \<in> set s then
        [rev (tl (dropWhile (\<lambda>c. c \<noteq> CHR '' '') (rev s))),
         rev (takeWhile (\<lambda>c. c \<noteq> CHR '' '') (rev s))]
      else [s])"

subsection \<open>The three regular expressions\<close>

text \<open>
  \<^verbatim>\<open>\d+\.\d+(?:\.\d+)?\<close> matched at the start of \<open>s\<close>: the text matched and the rest.
  Each run of digits is followed in the pattern by something that is not a digit, so the
  greedy match is the only one.
\<close>

definition match_version :: "string \<Rightarrow> (string \<times> string) option" where
  "match_version s =
     (let d1 = takeWhile is_digit s; r1 = dropWhile is_digit s in
      if d1 = [] then None
      else (case r1 of
        [] \<Rightarrow> None
      | c # r2 \<Rightarrow>
          if c \<noteq> CHR ''.'' then None
          else
            (let d2 = takeWhile is_digit r2; r3 = dropWhile is_digit r2 in
             if d2 = [] then None
             else (case r3 of
               [] \<Rightarrow> Some (d1 @ ''.'' @ d2, r3)
             | c' # r4 \<Rightarrow>
                 if c' = CHR ''.'' \<and> takeWhile is_digit r4 \<noteq> [] then
                   Some (d1 @ ''.'' @ d2 @ ''.'' @ takeWhile is_digit r4, dropWhile is_digit r4)
                 else Some (d1 @ ''.'' @ d2, r3)))))"

text \<open>
  \<^verbatim>\<open>(\d+\.\d+(?:\.\d+)?)\s*-\s*(\d+\.\d+(?:\.\d+)?)\<close> matched at the start of \<open>s\<close>: the
  two groups.
\<close>

definition match_version_range :: "string \<Rightarrow> (string \<times> string) option" where
  "match_version_range s =
     (case match_version s of
        None \<Rightarrow> None
      | Some (g1, r) \<Rightarrow>
          (case dropWhile is_space r of
             [] \<Rightarrow> None
           | c # r' \<Rightarrow>
               if c \<noteq> CHR ''-'' then None
               else (case match_version (dropWhile is_space r') of
                       None \<Rightarrow> None
                     | Some (g2, _) \<Rightarrow> Some (g1, g2))))"

text \<open>\<^verbatim>\<open>re.search\<close> of that pattern: the leftmost position where it matches.\<close>

fun search_version_range :: "string \<Rightarrow> (string \<times> string) option" where
  "search_version_range [] = None"
| "search_version_range (c # cs) =
     (case match_version_range (c # cs) of
        Some m \<Rightarrow> Some m
      | None \<Rightarrow> search_version_range cs)"

text \<open>
  \<^verbatim>\<open>re.search(r'\(([^)]+)\)', s)\<close> and \<^verbatim>\<open>re.search(r'\[([^\]]+)\]', s)\<close>, with the
  opening and the closing character as parameters: group 1 of the leftmost match, that
  is, at the first opening character that is followed by at least one character other
  than the closing one and then by the closing one.
\<close>

fun search_delimited :: "char \<Rightarrow> char \<Rightarrow> string \<Rightarrow> string option" where
  "search_delimited opn cls [] = None"
| "search_delimited opn cls (c # cs) =
     (if c = opn \<and> takeWhile (\<lambda>x. x \<noteq> cls) cs \<noteq> [] \<and> dropWhile (\<lambda>x. x \<noteq> cls) cs \<noteq> []
      then Some (takeWhile (\<lambda>x. x \<noteq> cls) cs)
      else search_delimited opn cls cs)"

subsection \<open>The three strategies\<close>

definition is_done :: "string issue \<Rightarrow> bool" where
  "is_done child \<longleftrightarrow> lower (status_category child) = ''done''"

text \<open>\<^verbatim>\<open>counts[k] = counts.get(k, 0) + 1\<close>.\<close>

definition count_up :: "string \<Rightarrow> (string, nat) dict \<Rightarrow> (string, nat) dict" where
  "count_up k counts =
     AList.update k ((case map_of counts k of None \<Rightarrow> 0 | Some n \<Rightarrow> n) + 1) counts"

definition istio_tally_step :: "string issue \<Rightarrow> (string, nat) dict \<Rightarrow> (string, nat) dict" where
  "istio_tally_step child service_env_counts =
     (case search_delimited (CHR ''('') (CHR '')'') (summary child) of
        None \<Rightarrow> service_env_counts
      | Some g \<Rightarrow>
          let service_env = strip g; parts = rsplit_space service_env in
          (case parts of
             [service, env] \<Rightarrow> count_up (service @ '' '' @ env) service_env_counts
           | _ \<Rightarrow> count_up service_env service_env_counts))"

definition istio_summary :: "string \<Rightarrow> string issue list \<Rightarrow> string" where
  "istio_summary name done_children =
     (let version_str =
            (case search_version_range name of
               Some (g1, g2) \<Rightarrow> g1 @ '' to '' @ g2
             | None \<Rightarrow> ''upgrade'');
          service_env_counts = fold istio_tally_step done_children [];
          summary_parts =
            map (\<lambda>(service_env, count).
                   service_env @ '' - '' @ str_nat count @ '' '' @
                   (if count = 1 then ''cluster'' else ''clusters''))
              (sort_key fst service_env_counts)
      in if summary_parts \<noteq> [] then
           ''Completed Istio '' @ version_str @ '' rollout:<br>'' @ join ''<br>'' summary_parts
         else
           ''Completed Istio '' @ version_str @ '' rollout across '' @
           str_nat (length done_children) @ '' clusters.'')"

definition argocd_summary :: "string \<Rightarrow> string issue list \<Rightarrow> string" where
  "argocd_summary name done_children =
     (let component =
            title (if CHR ''-'' \<in> set name
                   then strip (rev (takeWhile (\<lambda>c. c \<noteq> CHR ''-'') (rev name)))
                   else ''component'');
          env_list =
            concat (map (\<lambda>child.
                      case search_delimited (CHR ''['') (CHR '']'') (summary child) of
                        None \<Rightarrow> []
                      | Some g \<Rightarrow> [g]) done_children)
      in if env_list \<noteq> [] then
           let unique_envs = sort (remdups env_list) in
           (case unique_envs of
              [env] \<Rightarrow> ''Migrated '' @ component @ '' to ArgoCD in '' @ env @ ''.''
            | _ \<Rightarrow> ''Migrated '' @ component @ '' to ArgoCD across '' @
                   join '', '' unique_envs @ '' environments.'')
         else ''Completed ArgoCD migration for '' @ component @ ''.'')"

definition generic_summary :: "nat \<Rightarrow> nat \<Rightarrow> string" where
  "generic_summary done_count total_count =
     (if done_count = total_count \<and> total_count > 0 then
        ''Completed all '' @ str_nat total_count @ '' related tasks.''
      else if done_count > 0 then
        ''Completed '' @ str_nat done_count @ '' of '' @ str_nat total_count @ '' tasks.''
      else str_nat total_count @ '' tasks tracked.'')"

definition generate_epic_summary :: "epic_group \<Rightarrow> string" where
  "generate_epic_summary epic_data =
     (let total_count = length (children epic_data);
          name = lower (g_epic_name epic_data);
          done_children = filter is_done (children epic_data);
          done_count = length done_children
      in if contains ''istio'' name \<and> contains ''rollout'' name then
           istio_summary name done_children
         else if contains ''argocd'' name then
           argocd_summary name done_children
         else generic_summary done_count total_count)"

section \<open>The report: \<^verbatim>\<open>SprintReportGenerator.generate_markdown_report\<close>\<close>

text \<open>One element of \<^verbatim>\<open>epic_entries\<close>: a row of the table.\<close>

record entry =
  r_epic_key :: string
  r_description :: string
  r_targeted_sprint :: string
  r_status :: string
  r_details :: string

text \<open>
  \<^verbatim>\<open>x or y\<close> where \<open>x\<close> is the result of a \<^verbatim>\<open>dict.get\<close> without default (\<open>None\<close>
  for an absent key) and every value is a string: \<open>x\<close> if it is there and not empty,
  \<open>y\<close> otherwise.
\<close>

definition or_else :: "string option \<Rightarrow> string \<Rightarrow> string" where
  "or_else x y = (case x of None \<Rightarrow> y | Some s \<Rightarrow> if s \<noteq> [] then s else y)"

text \<open>
  The body of the loop over \<^verbatim>\<open>epics_dict.items()\<close>.  \<open>epic_info\<close> is
  \<^verbatim>\<open>epic_details.get(epic_key, {})\<close>: \<open>None\<close> stands for the empty dict, in which
  every \<^verbatim>\<open>get\<close> falls back to its default.
\<close>

definition epic_entry :: "(string, string issue) dict \<Rightarrow> string \<times> epic_group \<Rightarrow> entry" where
  "epic_entry details = (\<lambda>(epic_key, epic_data).
     let epic_info = map_of details epic_key;
         epic_status =
           or_else (map_option status epic_info)
             (or_else (g_status epic_data) (determine_epic_status epic_data));
         targeted_sprint = (case epic_info of None \<Rightarrow> [] | Some info \<Rightarrow> sprint info);
         name =
           or_else (map_option summary epic_info)
             (or_else (map_option epic_name epic_info)
                (or_else (Some (g_epic_name epic_data)) (''Epic '' @ epic_key)))
     in \<lparr>r_epic_key = epic_key,
         r_description = name,
         r_targeted_sprint = targeted_sprint,
         r_status = epic_status,
         r_details = generate_epic_summary epic_data\<rparr>)"

text \<open>The body of the loop over \<^verbatim>\<open>standalone\<close>.\<close>

definition standalone_entry :: "string issue \<Rightarrow> entry" where
  "standalone_entry issue =
     \<lparr>r_epic_key = key issue,
      r_description = summary issue,
      r_targeted_sprint = [],
      r_status = or_else (Some (status issue)) (status_category issue),
      r_details = take 200 (summary issue)\<rparr>"

definition epic_entries :: "grouped_data \<Rightarrow> entry list" where
  "epic_entries grouped =
     map (epic_entry (epic_details grouped)) (epics grouped) @
     map standalone_entry (standalone grouped)"

definition get_sort_order :: "entry \<Rightarrow> nat" where
  "get_sort_order e =
     (let st = lower (r_status e) in
      if st = ''done'' then 0 else if st = ''in progress'' then 1 else 2)"

text \<open>\<^verbatim>\<open>sorted(epic_entries, key=get_sort_order)\<close>: a stable sort, as \<^const>\<open>sort_key\<close> is.\<close>

definition epic_entries_sorted :: "grouped_data \<Rightarrow> entry list" where
  "epic_entries_sorted grouped = sort_key get_sort_order (epic_entries grouped)"

text \<open>The line of the table for one entry.\<close>

definition table_row :: "entry \<Rightarrow> string" where
  "table_row e =
     (let link = ''['' @ r_epic_key e @ ''](https://hpe.atlassian.net/browse/'' @ r_epic_key e @ '')''
      in ''| '' @ link @ '' | '' @ r_description e @ '' | '' @ r_targeted_sprint e @ '' | '' @
         r_status e @ '' | '' @ r_details e @ '' |'')"

text \<open>
  The values the report takes from the configuration, each as the text an f-string
  prints for it (with the default of its \<^verbatim>\<open>get\<close> when the key is absent).
\<close>

record report_config =
  sprint_number :: string
  team_name :: string
  start_date :: string
  end_date :: string
  kudos :: "string list"
  story_points_completed :: string
  pr_reviews_count :: string

definition md_lines :: "report_config \<Rightarrow> grouped_data \<Rightarrow> string list" where
  "md_lines cfg grouped =
     [''# CCP K8s IST Sprint '' @ sprint_number cfg @ '' Report'',
      [],
      ''This sprint report highlights the achievements and overall progress of the '' @
        team_name cfg @ '' team during CCP Sprint '' @ sprint_number cfg @ '' (from '' @
        start_date cfg @ '' to '' @ end_date cfg @
        ''). Below are the key updates and appreciations.'',
      [],
      ''## A] Kudos/Appreciation'',
      []] @
     map (\<lambda>kudo. ''- '' @ kudo) (kudos cfg) @
     [[],
      ''## B] Epic Updates'',
      [],
      ''| Epic | Description | Targeted Sprint | Status | Details |'',
      ''|------|-------------|----------------|--------|---------|''] @
     map table_row (epic_entries_sorted grouped) @
     [[],
      ''## C] Overall Story Points Completed'',
      [],
      ''**Story Points:** '' @ story_points_completed cfg,
      [],
      ''## D] Overall PR Reviews'',
      [],
      ''**PRs Reviewed:** '' @ pr_reviews_count cfg,
      [],
      ''---'',
      [],
      ''Overall, the team demonstrated very good collaboration, dedication, and technical expertise, ensuring the successful delivery of all sprint commitments and setting a strong foundation for future work.'',
      [],
      ''Regards,'']"

text \<open>
  The report for the parsed issues of the query: \<^verbatim>\<open>fetch_sprint_data\<close>, then the
  lines joined by newlines.
\<close>

definition generate_markdown_report ::
  "report_config \<Rightarrow> string issue list \<Rightarrow> (string set \<Rightarrow> string issue list) \<Rightarrow> string" where
  "generate_markdown_report cfg parsed_issues fetch_epics =
     join [CHR 0x0A] (md_lines cfg (fetch_sprint_data parsed_issues fetch_epics))"

section \<open>Normalisation: \<^verbatim>\<open>JiraClient.parse_issue\<close>\<close>

text \<open>
  A raw issue is the JSON value the server sent, decoded: \<^verbatim>\<open>None\<close>, a boolean, a
  number (integers only here), a string, a list or a dict.
\<close>

datatype json =
  JNull
| JBool bool
| JNum int
| JStr string
| JList "json list"
| JDict "(string \<times> json) list"

datatype py_error = AttributeError

text \<open>The truth value of a Python value, as \<^verbatim>\<open>if x\<close> and \<^verbatim>\<open>x and y\<close> take it.\<close>

fun truthy :: "json \<Rightarrow> bool" where
  "truthy JNull = False"
| "truthy (JBool b) = b"
| "truthy (JNum n) = (n \<noteq> 0)"
| "truthy (JStr s) = (s \<noteq> [])"
| "truthy (JList xs) = (xs \<noteq> [])"
| "truthy (JDict kvs) = (kvs \<noteq> [])"

text \<open>
  \<^verbatim>\<open>x.get(k, default)\<close>: the value stored under \<open>k\<close>, the default when the dict has no
  such key, and \<^verbatim>\<open>AttributeError\<close> when \<open>x\<close> is not a dict (\<^verbatim>\<open>None\<close>, strings, numbers
  and lists have no \<^verbatim>\<open>get\<close>).
\<close>

fun py_get :: "json \<Rightarrow> string \<Rightarrow> json \<Rightarrow> py_error + json" where
  "py_get (JDict kvs) k d = Inr (case map_of kvs k of None \<Rightarrow> d | Some v \<Rightarrow> v)"
| "py_get _ k d = Inl AttributeError"

text \<open>Sequencing: the first exception ends the evaluation.\<close>

definition and_then :: "py_error + 'a \<Rightarrow> ('a \<Rightarrow> py_error + 'b) \<Rightarrow> py_error + 'b" where
  "and_then r f = (case r of Inl e \<Rightarrow> Inl e | Inr v \<Rightarrow> f v)"

text \<open>\<^verbatim>\<open>x.get(k1, {}).get(k2, d)\<close>.\<close>

definition py_get2 :: "json \<Rightarrow> string \<Rightarrow> string \<Rightarrow> json \<Rightarrow> py_error + json" where
  "py_get2 x k1 k2 d = and_then (py_get x k1 (JDict [])) (\<lambda>y. py_get y k2 d)"

text \<open>\<^verbatim>\<open>x.get(k1, {}).get(k2, {}).get(k3, d)\<close>.\<close>

definition py_get3 :: "json \<Rightarrow> string \<Rightarrow> string \<Rightarrow> string \<Rightarrow> json \<Rightarrow> py_error + json" where
  "py_get3 x k1 k2 k3 d = and_then (py_get2 x k1 k2 (JDict [])) (\<lambda>y. py_get y k3 d)"

definition parse_issue :: "json \<Rightarrow> py_error + json issue" where
  "parse_issue issue =
     and_then (py_get issue ''fields'' (JDict [])) (\<lambda>fields.
     and_then (py_get fields ''parent'' (JDict [])) (\<lambda>parent.
     and_then
       (if truthy parent then
          and_then (py_get3 parent ''fields'' ''issuetype'' ''name'' JNull) (\<lambda>ty.
            if ty = JStr ''Epic'' then py_get parent ''key'' (JStr []) else Inr (JStr []))
        else Inr (JStr [])) (\<lambda>epic_link0.
     and_then
       (if \<not> truthy epic_link0 then py_get fields ''customfield_10014'' (JStr [])
        else Inr epic_link0) (\<lambda>epic_link1.
     and_then (py_get fields ''customfield_10011'' (JStr [])) (\<lambda>epic_name1.
     and_then (py_get fields ''customfield_10020'' (JList [])) (\<lambda>sprint_field.
     and_then
       (case sprint_field of
          JList (first # _) \<Rightarrow> py_get first ''name'' (JStr [])
        | _ \<Rightarrow> Inr (JStr [])) (\<lambda>sprint_name.
     and_then (py_get issue ''key'' (JStr [])) (\<lambda>key1.
     and_then (py_get fields ''summary'' (JStr [])) (\<lambda>summary1.
     and_then (py_get fields ''description'' (JStr [])) (\<lambda>description1.
     and_then (py_get2 fields ''status'' ''name'' (JStr [])) (\<lambda>status1.
     and_then (py_get3 fields ''status'' ''statusCategory'' ''name'' (JStr [])) (\<lambda>status_category1.
     and_then (py_get2 fields ''issuetype'' ''name'' (JStr [])) (\<lambda>issuetype1.
     and_then (if truthy parent then py_get parent ''key'' (JStr []) else Inr (JStr []))
       (\<lambda>parent_key1.
     and_then
       (if truthy parent then py_get2 parent ''fields'' ''summary'' (JStr []) else Inr (JStr []))
       (\<lambda>parent_summary1.
     and_then
       (and_then (py_get fields ''assignee'' JNull) (\<lambda>a.
          if truthy a then py_get2 fields ''assignee'' ''displayName'' (JStr [])
          else Inr (JStr []))) (\<lambda>assignee1.
     and_then (py_get fields ''created'' (JStr [])) (\<lambda>created1.
     and_then (py_get fields ''updated'' (JStr [])) (\<lambda>updated1.
     Inr \<lparr>key = key1, summary = summary1, description = description1, status = status1,
          status_category = status_category1, issuetype = issuetype1,
          epic_link = epic_link1, epic_name = epic_name1,
          parent_key = parent_key1, parent_summary = parent_summary1,
          assignee = assignee1, created = created1, updated = updated1,
          sprint = sprint_name\<rparr>))))))))))))))))))"

section \<open>Pagination: \<^verbatim>\<open>JiraClient.search_issues\<close>\<close>

text \<open>
  The decoded body of one page: its entries \<^verbatim>\<open>issues\<close> and \<^verbatim>\<open>total\<close>, each \<open>None\<close>
  when the body has no such key.
\<close>

record 'a page =
  page_issues :: "'a list option"
  page_total :: "int option"

datatype request_error = RequestException

text \<open>
  The server is a function \<open>get\<close> of the parameters \<^verbatim>\<open>startAt\<close> and \<^verbatim>\<open>maxResults\<close>
  of a request (the other two never change): it answers with a page, or the request
  raises a \<^verbatim>\<open>RequestException\<close>.  The \<^verbatim>\<open>while True\<close> loop has no bound of its own
  (a server that reports an ever larger total keeps it going), so the model takes fuel,
  one unit for each request, and returns \<open>None\<close> when it runs out.  The loop ends with
  the exception of a failed request or with the issues accumulated.
\<close>

fun search_loop ::
  "nat \<Rightarrow> (nat \<Rightarrow> nat \<Rightarrow> request_error + 'a page) \<Rightarrow> nat \<Rightarrow> nat \<Rightarrow> 'a list \<Rightarrow>
     (request_error + 'a list) option" where
  "search_loop 0 get max_results start_at all_issues = None"
| "search_loop (Suc fuel) get max_results start_at all_issues =
     (case get start_at (min max_results 100) of
        Inl e \<Rightarrow> Some (Inl e)
      | Inr data \<Rightarrow>
          let issues = (case page_issues data of None \<Rightarrow> [] | Some xs \<Rightarrow> xs);
              all_issues' = all_issues @ issues;
              total_count = (case page_total data of None \<Rightarrow> 0 | Some t \<Rightarrow> t)
          in if int (start_at + length issues) \<ge> total_count \<or> length issues = 0
             then Some (Inr all_issues')
             else search_loop fuel get max_results (start_at + length issues) all_issues')"

text \<open>
  The \<^verbatim>\<open>try\<close> block around the loop: a \<^verbatim>\<open>RequestException\<close> is logged and the empty
  list returned.
\<close>

definition search_issues ::
  "nat \<Rightarrow> (nat \<Rightarrow> nat \<Rightarrow> request_error + 'a page) \<Rightarrow> nat \<Rightarrow> 'a list option" where
  "search_issues fuel get max_results =
     (case search_loop fuel get max_results 0 [] of
        None \<Rightarrow> None
      | Some (Inl e) \<Rightarrow> Some []
      | Some (Inr all_issues) \<Rightarrow> Some all_issues)"

text \<open>
  The offset \<open>n\<close> pages after the offset \<open>start_at\<close>, and whether the loop goes on
  after the page at an offset: the request succeeded, the page is not empty and does not
  reach the total.
\<close>

definition page_length :: "(nat \<Rightarrow> nat \<Rightarrow> request_error + 'a page) \<Rightarrow> nat \<Rightarrow> nat \<Rightarrow> nat" where
  "page_length get max_results start_at =
     (case get start_at (min max_results 100) of
        Inl e \<Rightarrow> 0
      | Inr data \<Rightarrow> (case page_issues data of None \<Rightarrow> 0 | Some xs \<Rightarrow> length xs))"

fun start_after ::
  "(nat \<Rightarrow> nat \<Rightarrow> request_error + 'a page) \<Rightarrow> nat \<Rightarrow> nat \<Rightarrow> nat \<Rightarrow> nat" where
  "start_after get max_results start_at 0 = start_at"
| "start_after get max_results start_at (Suc n) =
     start_after get max_results (start_at + page_length get max_results start_at) n"

definition continues :: "(nat \<Rightarrow> nat \<Rightarrow> request_error + 'a page) \<Rightarrow> nat \<Rightarrow> nat \<Rightarrow> bool" where
  "continues get max_results start_at =
     (case get start_at (min max_results 100) of
        Inl e \<Rightarrow> False
      | Inr data \<Rightarrow>
          let n = (case page_issues data of None \<Rightarrow> 0 | Some xs \<Rightarrow> length xs);
              total_count = (case page_total data of None \<Rightarrow> 0 | Some t \<Rightarrow> t)
          in \<not> (int (start_at + n) \<ge> total_count \<or> n = 0))"

section \<open>Invariants of the loops\<close>

text \<open>No issue of type \<^verbatim>\<open>Epic\<close> among the children of a group or in the standalone list.\<close>

definition no_epic_inside :: "grouped_data \<Rightarrow> bool" where
  "no_epic_inside st \<longleftrightarrow>
     (\<forall>k g c. (k, g) \<in> set (epics st) \<longrightarrow> c \<in> set (children g) \<longrightarrow> issuetype c \<noteq> ''Epic'') \<and>
     (\<forall>i. i \<in> set (standalone st) \<longrightarrow> issuetype i \<noteq> ''Epic'')"

section \<open>Example data\<close>

text \<open>
  An issue with the given key, type, epic link, epic name, summary, status and status
  category, and every other field empty.
\<close>

definition mk_issue ::
  "string \<Rightarrow> string \<Rightarrow> string \<Rightarrow> string \<Rightarrow> string \<Rightarrow> string \<Rightarrow> string \<Rightarrow> string issue" where
  "mk_issue k ty link nm summ st cat =
     \<lparr>key = k, summary = summ, description = [], status = st, status_category = cat,
      issuetype = ty, epic_link = link, epic_name = nm, parent_key = [], parent_summary = [],
      assignee = [], created = [], updated = [], sprint = []\<rparr>"

text \<open>
  The query of the specification's first end-to-end example: an epic \<^verbatim>\<open>E1\<close> named
  \<^verbatim>\<open>Upgrade\<close>, a finished task and an unfinished one under it.
\<close>

definition ex_epic :: "string issue" where
  "ex_epic = mk_issue ''E1'' ''Epic'' [] ''Upgrade'' ''Platform work'' ''Open'' ''In Progress''"

definition ex_task1 :: "string issue" where
  "ex_task1 = mk_issue ''T1'' ''Task'' ''E1'' [] ''First task'' ''Closed'' ''Done''"

definition ex_task2 :: "string issue" where
  "ex_task2 = mk_issue ''T2'' ''Task'' ''E1'' [] ''Second task'' ''Open'' ''To Do''"

definition ex_query :: "string issue list" where
  "ex_query = [ex_epic, ex_task1, ex_task2]"

text \<open>A supplementary query that returns nothing.\<close>

definition ex_no_fetch :: "string set \<Rightarrow> string issue list" where
  "ex_no_fetch ks = []"

text \<open>
  The second example: a finished task linked to the epic \<^verbatim>\<open>E9\<close>, which the query does
  not return; the supplementary query returns it.
\<close>

definition ex_task9 :: "string issue" where
  "ex_task9 = mk_issue ''T1'' ''Task'' ''E9'' [] ''Only task'' ''Closed'' ''done''"

definition ex_epic9 :: "string issue" where
  "ex_epic9 = mk_issue ''E9'' ''Epic'' [] ''ArgoCD migration - ingress'' [] ''Open'' ''In Progress''"

definition ex_fetch9 :: "string set \<Rightarrow> string issue list" where
  "ex_fetch9 ks = [ex_epic9]"

text \<open>A task without an epic link, and the query that returns both tasks.\<close>

definition ex_alone :: "string issue" where
  "ex_alone = mk_issue ''T7'' ''Task'' [] [] ''Standalone work'' ''Open'' ''To Do''"

definition ex_query9 :: "string issue list" where
  "ex_query9 = [ex_task9, ex_alone]"

text \<open>An epic that itself carries an epic link, after the epic it links to.\<close>

definition ex_sub_epic :: "string issue" where
  "ex_sub_epic = mk_issue ''E2'' ''Epic'' ''E1'' ''Sub-epic'' ''Nested work'' ''Open'' ''To Do''"

text \<open>A configuration.\<close>

definition ex_cfg :: report_config where
  "ex_cfg = \<lparr>sprint_number = ''12'', team_name = ''Platform'', start_date = ''2025-01-06'',
             end_date = ''2025-01-17'', kudos = [''Thanks to all''],
             story_points_completed = ''34'', pr_reviews_count = ''21''\<rparr>"

text \<open>
  A server whose first page holds one issue of two and whose every later request fails.
\<close>

definition ex_server :: "nat \<Rightarrow> nat \<Rightarrow> request_error + string page" where
  "ex_server start_at page_size =
     (if start_at = 0 then Inr \<lparr>page_issues = Some [''A-1''], page_total = Some 2\<rparr>
      else Inl RequestException)"

text \<open>
  Raw issues: one whose description is \<^verbatim>\<open>null\<close> (what the tracker sends for an
  issue without a description), one whose assignee is \<^verbatim>\<open>null\<close> (an issue nobody is
  assigned to) and one whose status is \<^verbatim>\<open>null\<close>.
\<close>

definition ex_raw_no_description :: json where
  "ex_raw_no_description =
     JDict [(''key'', JStr ''A-1''),
            (''fields'', JDict [(''summary'', JStr ''Fix login''), (''description'', JNull)])]"

definition ex_raw_no_assignee :: json where
  "ex_raw_no_assignee =
     JDict [(''key'', JStr ''A-2''),
            (''fields'', JDict [(''summary'', JStr ''Fix logout''), (''assignee'', JNull)])]"

definition ex_raw_null_status :: json where
  "ex_raw_null_status =
     JDict [(''key'', JStr ''A-3''),
            (''fields'', JDict [(''summary'', JStr ''Fix signup''), (''status'', JNull)])]"

section \<open>Auxiliary facts\<close>

subsection \<open>Lists and association lists\<close>

lemma count_ones: "sum_list (map (\<lambda>c. Suc 0) (filter P xs)) = length (filter P xs)"
  by (induction xs) auto

lemma length_filter_all: "length (filter P xs) = length xs \<longleftrightarrow> (\<forall>x\<in>set xs. P x)"
proof
  assume "length (filter P xs) = length xs"
  with sum_length_filter_compl [of P xs] have "filter (\<lambda>x. \<not> P x) xs = []" by simp
  then show "\<forall>x\<in>set xs. P x" by (simp add: filter_empty_conv)
next
  assume "\<forall>x\<in>set xs. P x"
  then show "length (filter P xs) = length xs" by simp
qed

lemma list_ex_filter: "list_ex P xs \<longleftrightarrow> filter P xs \<noteq> []"
  by (induction xs) auto

lemma subseq_subset: "subseq xs ys \<Longrightarrow> set xs \<subseteq> set ys"
  by (induction rule: list_emb.induct) auto

lemma update_setD:
  "(k', v') \<in> set (AList.update k v al) \<Longrightarrow> (k', v') = (k, v) \<or> (k', v') \<in> set al"
  by (induction al) (auto split: if_splits)

lemma map_entry_setD:
  "(k', v') \<in> set (AList.map_entry k f al) \<Longrightarrow>
     (k', v') \<in> set al \<or> (k' = k \<and> (\<exists>v0. (k, v0) \<in> set al \<and> v' = f v0))"
  by (induction al) (auto split: if_splits)

lemma update_fresh: "k \<notin> fst ` set al \<Longrightarrow> AList.update k v al = al @ [(k, v)]"
  by (induction al) auto

lemma map_entry_append_fresh:
  "k \<notin> fst ` set al \<Longrightarrow> AList.map_entry k f (al @ [(k, v)]) = al @ [(k, f v)]"
  by (induction al) auto

lemma fold_invariant:
  assumes "I st" and "\<And>x st. x \<in> set xs \<Longrightarrow> I st \<Longrightarrow> I (f x st)"
  shows "I (fold f xs st)"
  using assms by (induction xs arbitrary: st) auto

subsection \<open>Case-insensitive comparison\<close>

lemma eq_ignore_case_lower: "eq_ignore_case s t \<longleftrightarrow> lower s = lower t"
  unfolding eq_ignore_case_def lower_def
  by (induction s arbitrary: t) (auto simp: list_all2_Cons1)

lemma lower_done: "lower ''done'' = ''done''"
  by (simp add: lower_def lower_char_def is_upper_def)

subsection \<open>The four branches of the grouping loop\<close>

lemma group_step_Epic:
  "issuetype x = ''Epic'' \<Longrightarrow>
   group_step x st =
     st\<lparr>epics := AList.update (key x)
           \<lparr>g_epic_key = key x,
            g_epic_name = (if epic_name x \<noteq> [] then epic_name x else summary x),
            children = [], g_status = None\<rparr> (epics st)\<rparr>"
  by (simp add: group_step_def)

lemma group_step_new:
  "issuetype x \<noteq> ''Epic'' \<Longrightarrow> epic_link x \<noteq> [] \<Longrightarrow> epic_link x \<notin> fst ` set (epics st) \<Longrightarrow>
   group_step x st =
     st\<lparr>epics := epics st @
           [(epic_link x,
             \<lparr>g_epic_key = epic_link x, g_epic_name = [], children = [x], g_status = None\<rparr>)]\<rparr>"
  by (simp add: group_step_def Let_def update_fresh map_entry_append_fresh)

lemma group_step_old:
  "issuetype x \<noteq> ''Epic'' \<Longrightarrow> epic_link x \<noteq> [] \<Longrightarrow> epic_link x \<in> fst ` set (epics st) \<Longrightarrow>
   group_step x st =
     st\<lparr>epics := AList.map_entry (epic_link x) (\<lambda>g. g\<lparr>children := children g @ [x]\<rparr>) (epics st)\<rparr>"
  by (simp add: group_step_def Let_def)

lemma group_step_alone:
  "issuetype x \<noteq> ''Epic'' \<Longrightarrow> epic_link x = [] \<Longrightarrow>
   group_step x st = st\<lparr>standalone := standalone st @ [x]\<rparr>"
  by (simp add: group_step_def)

text \<open>Where an entry of the epics after one iteration comes from.\<close>

lemma group_step_entry:
  assumes "(k, g) \<in> set (epics (group_step x st))"
  shows "(issuetype x = ''Epic'' \<and> key x = k \<and> children g = []) \<or>
         (k, g) \<in> set (epics st) \<or>
         (issuetype x \<noteq> ''Epic'' \<and> epic_link x = k \<and> g_epic_name g = [] \<and> children g = [x]) \<or>
         (issuetype x \<noteq> ''Epic'' \<and> epic_link x = k \<and>
            (\<exists>g0. (k, g0) \<in> set (epics st) \<and> g = g0\<lparr>children := children g0 @ [x]\<rparr>))"
proof -
  consider (epic) "issuetype x = ''Epic''"
    | (alone) "issuetype x \<noteq> ''Epic''" "epic_link x = []"
    | (new) "issuetype x \<noteq> ''Epic''" "epic_link x \<noteq> []" "epic_link x \<notin> fst ` set (epics st)"
    | (old) "issuetype x \<noteq> ''Epic''" "epic_link x \<noteq> []" "epic_link x \<in> fst ` set (epics st)"
    by blast
  then show ?thesis
  proof cases
    case epic
    with assms have "(k, g) \<in> set (AList.update (key x)
           \<lparr>g_epic_key = key x,
            g_epic_name = (if epic_name x \<noteq> [] then epic_name x else summary x),
            children = [], g_status = None\<rparr> (epics st))"
      by (simp add: group_step_Epic)
    from update_setD [OF this] epic show ?thesis by auto
  next
    case alone
    with assms show ?thesis by (simp add: group_step_alone)
  next
    case new
    with assms show ?thesis by (auto simp: group_step_new)
  next
    case old
    with assms have "(k, g) \<in> set (AList.map_entry (epic_link x)
           (\<lambda>g. g\<lparr>children := children g @ [x]\<rparr>) (epics st))"
      by (simp add: group_step_old)
    from map_entry_setD [OF this] old show ?thesis by auto
  qed
qed

lemma group_step_standalone:
  "standalone (group_step x st) = standalone st \<or>
   (issuetype x \<noteq> ''Epic'' \<and> epic_link x = [] \<and>
    standalone (group_step x st) = standalone st @ [x])"
  by (simp add: group_step_def Let_def)

lemma group_step_keys:
  "fst ` set (epics (group_step x st)) =
     fst ` set (epics st) \<union>
       (if issuetype x = ''Epic'' then {key x}
        else if epic_link x \<noteq> [] then {epic_link x} else {})"
  by (auto simp: group_step_def Let_def dom_update dom_map_entry)

subsection \<open>Invariants of the grouping loop\<close>

lemma fold_group_subseq:
  assumes "\<forall>(k, g) \<in> set (epics st). subseq (children g) pre"
  shows "\<forall>(k, g) \<in> set (epics (fold group_step xs st)). subseq (children g) (pre @ xs)"
  using assms
proof (induction xs arbitrary: st pre)
  case Nil
  then show ?case by simp
next
  case (Cons x xs)
  have "\<forall>(k, g) \<in> set (epics (group_step x st)). subseq (children g) (pre @ [x])"
  proof (clarify)
    fix k g assume "(k, g) \<in> set (epics (group_step x st))"
    from group_step_entry [OF this] Cons.prems show "subseq (children g) (pre @ [x])"
      by (auto intro: subseq_rev_drop_many)
  qed
  from Cons.IH [OF this] show ?case by simp
qed

lemma group_children_subset:
  assumes "(k, g) \<in> set (epics (group_issues_by_parent issues))"
  shows "set (children g) \<subseteq> set issues"
proof -
  have "\<forall>(k, g) \<in> set (epics (group_issues_by_parent issues)). subseq (children g) issues"
    using fold_group_subseq [of "\<lparr>epics = [], standalone = [], epic_details = []\<rparr>" "[]" issues]
    by (simp add: group_issues_by_parent_def)
  with assms have "subseq (children g) issues" by blast
  then show ?thesis by (rule subseq_subset)
qed

lemma group_standalone_subset:
  "set (standalone (group_issues_by_parent issues)) \<subseteq> set issues"
proof -
  have "set (standalone (fold group_step issues \<lparr>epics = [], standalone = [], epic_details = []\<rparr>))
          \<subseteq> set issues"
  proof (rule fold_invariant [where I = "\<lambda>st. set (standalone st) \<subseteq> set issues"])
    show "set (standalone \<lparr>epics = [], standalone = [], epic_details = []\<rparr>) \<subseteq> set issues"
      by simp
  next
    fix x and st :: grouped_data
    assume "x \<in> set issues" "set (standalone st) \<subseteq> set issues"
    with group_step_standalone [of x st]
    show "set (standalone (group_step x st)) \<subseteq> set issues" by auto
  qed
  then show ?thesis by (simp add: group_issues_by_parent_def)
qed

lemma fold_group_keys_mono:
  "fst ` set (epics st) \<subseteq> fst ` set (epics (fold group_step xs st))"
proof (induction xs arbitrary: st)
  case Nil
  then show ?case by simp
next
  case (Cons x xs)
  have "fst ` set (epics st) \<subseteq> fst ` set (epics (group_step x st))"
    unfolding group_step_keys by blast
  also have "\<dots> \<subseteq> fst ` set (epics (fold group_step xs (group_step x st)))"
    by (rule Cons.IH)
  finally show ?case by simp
qed

lemma fold_group_registers:
  assumes "x \<in> set xs" and "issuetype x = ''Epic''"
  shows "key x \<in> fst ` set (epics (fold group_step xs st))"
  using assms(1)
proof (induction xs arbitrary: st)
  case Nil
  then show ?case by simp
next
  case (Cons y ys)
  show ?case
  proof (cases "x = y")
    case True
    with assms(2) have "key x \<in> fst ` set (epics (group_step y st))"
      unfolding group_step_keys by simp
    with fold_group_keys_mono [of "group_step y st" ys] show ?thesis by auto
  next
    case False
    with Cons.prems have "x \<in> set ys" by simp
    from Cons.IH [OF this] show ?thesis by simp
  qed
qed

lemma group_step_no_epic_inside:
  assumes "no_epic_inside st"
  shows "no_epic_inside (group_step x st)"
  unfolding no_epic_inside_def
proof (intro conjI allI impI)
  fix k g c
  assume "(k, g) \<in> set (epics (group_step x st))" and c: "c \<in> set (children g)"
  from group_step_entry [OF this(1)]
  consider "children g = []"
    | "(k, g) \<in> set (epics st)"
    | "issuetype x \<noteq> ''Epic''" "children g = [x]"
    | g0 where "issuetype x \<noteq> ''Epic''" "(k, g0) \<in> set (epics st)"
        "children g = children g0 @ [x]"
    by auto
  then show "issuetype c \<noteq> ''Epic''"
  proof cases
    case 1
    with c show ?thesis by simp
  next
    case 2
    with c assms show ?thesis unfolding no_epic_inside_def by blast
  next
    case 3
    with c show ?thesis by simp
  next
    case 4
    from c 4(3) have "c \<in> set (children g0) \<or> c = x" by auto
    with 4(1,2) assms show ?thesis unfolding no_epic_inside_def by blast
  qed
next
  fix i assume "i \<in> set (standalone (group_step x st))"
  with group_step_standalone [of x st] assms show "issuetype i \<noteq> ''Epic''"
    unfolding no_epic_inside_def by auto
qed

lemma fold_group_no_epic_inside:
  "no_epic_inside st \<Longrightarrow> no_epic_inside (fold group_step xs st)"
  using fold_invariant [of no_epic_inside st xs group_step] group_step_no_epic_inside by blast

text \<open>Groups that no epic of the query registered have the empty name.\<close>

lemma group_lazy_name:
  assumes "(k, g) \<in> set (epics (group_issues_by_parent issues))"
    and "k \<notin> epics_in_jql issues"
  shows "g_epic_name g = []"
proof -
  let ?I = "\<lambda>st. \<forall>k g. (k, g) \<in> set (epics st) \<longrightarrow> k \<notin> epics_in_jql issues \<longrightarrow> g_epic_name g = []"
  have "?I (fold group_step issues \<lparr>epics = [], standalone = [], epic_details = []\<rparr>)"
  proof (rule fold_invariant [where I = ?I])
    show "?I \<lparr>epics = [], standalone = [], epic_details = []\<rparr>" by simp
  next
    fix x and st :: grouped_data
    assume x: "x \<in> set issues" and inv: "?I st"
    show "?I (group_step x st)"
    proof (intro allI impI)
      fix k g
      assume kg: "(k, g) \<in> set (epics (group_step x st))" and k: "k \<notin> epics_in_jql issues"
      from x k have no: "\<not> (issuetype x = ''Epic'' \<and> key x = k)"
        by (auto simp: epics_in_jql_def)
      from group_step_entry [OF kg] no
      consider "(k, g) \<in> set (epics st)" | "g_epic_name g = []"
        | g0 where "(k, g0) \<in> set (epics st)" "g = g0\<lparr>children := children g0 @ [x]\<rparr>"
        by blast
      then show "g_epic_name g = []"
      proof cases
        case 1 with inv k show ?thesis by blast
      next
        case 2 then show ?thesis .
      next
        case 3
        from inv 3(1) k have "g_epic_name g0 = []" by blast
        with 3(2) show ?thesis by simp
      qed
    qed
  qed
  with assms show ?thesis by (simp add: group_issues_by_parent_def)
qed

subsection \<open>The filter of the reconciliation\<close>

lemma filter_epic_step_eq:
  "filter_epic_step K E (k0, d0) acc =
     (if k0 \<in> E \<or> filter (\<lambda>c. key c \<in> K) (children d0) \<noteq> [] then
        AList.update k0 (d0\<lparr>children := filter (\<lambda>c. key c \<in> K) (children d0)\<rparr>) acc
      else acc)"
  by (auto simp: filter_epic_step_def Let_def list_ex_filter)

lemma fold_filter_entry:
  assumes "(k, d) \<in> set (fold (filter_epic_step K E) xs acc)"
  shows "(k, d) \<in> set acc \<or>
         (\<exists>d0. (k, d0) \<in> set xs \<and>
            d = d0\<lparr>children := filter (\<lambda>c. key c \<in> K) (children d0)\<rparr> \<and>
            (k \<in> E \<or> children d \<noteq> []))"
  using assms
proof (induction xs arbitrary: acc)
  case Nil
  then show ?case by simp
next
  case (Cons x xs)
  obtain k0 d0 where x: "x = (k0, d0)" by (cases x)
  from Cons.prems have "(k, d) \<in> set (fold (filter_epic_step K E) xs (filter_epic_step K E (k0, d0) acc))"
    by (simp add: x)
  from Cons.IH [OF this]
  consider "(k, d) \<in> set (filter_epic_step K E (k0, d0) acc)"
    | "\<exists>d0. (k, d0) \<in> set xs \<and>
            d = d0\<lparr>children := filter (\<lambda>c. key c \<in> K) (children d0)\<rparr> \<and>
            (k \<in> E \<or> children d \<noteq> [])"
    by blast
  then show ?case
  proof cases
    case 1
    show ?thesis
    proof (cases "k0 \<in> E \<or> filter (\<lambda>c. key c \<in> K) (children d0) \<noteq> []")
      case True
      with 1 have "(k, d) \<in> set (AList.update k0
          (d0\<lparr>children := filter (\<lambda>c. key c \<in> K) (children d0)\<rparr>) acc)"
        by (simp add: filter_epic_step_eq)
      from update_setD [OF this] True show ?thesis
        by (auto simp: x)
    next
      case False
      with 1 show ?thesis by (simp add: filter_epic_step_eq)
    qed
  next
    case 2
    then show ?thesis by auto
  qed
qed

lemma fold_filter_distinct:
  "distinct (map fst acc) \<Longrightarrow> distinct (map fst (fold (filter_epic_step K E) xs acc))"
proof (induction xs arbitrary: acc)
  case Nil
  then show ?case by simp
next
  case (Cons x xs)
  obtain k0 d0 where x: "x = (k0, d0)" by (cases x)
  from Cons.prems have "distinct (map fst (filter_epic_step K E (k0, d0) acc))"
    by (simp add: filter_epic_step_eq distinct_update)
  from Cons.IH [OF this] show ?case by (simp add: x)
qed

text \<open>A list of groups that the filter leaves alone.\<close>

lemma fold_filter_stable:
  assumes "distinct (map fst (acc @ xs))"
    and "\<And>k d. (k, d) \<in> set xs \<Longrightarrow>
           (k \<in> E \<or> children d \<noteq> []) \<and> (\<forall>c \<in> set (children d). key c \<in> K)"
  shows "fold (filter_epic_step K E) xs acc = acc @ xs"
  using assms
proof (induction xs arbitrary: acc)
  case Nil
  then show ?case by simp
next
  case (Cons x xs)
  obtain k0 d0 where x: "x = (k0, d0)" by (cases x)
  from Cons.prems(2) [of k0 d0]
  have st: "k0 \<in> E \<or> children d0 \<noteq> []" and all: "\<forall>c \<in> set (children d0). key c \<in> K"
    by (simp_all add: x)
  from all have f: "filter (\<lambda>c. key c \<in> K) (children d0) = children d0" by simp
  from Cons.prems(1) have fresh: "k0 \<notin> fst ` set acc" by (auto simp: x)
  have step: "filter_epic_step K E (k0, d0) acc = acc @ [(k0, d0)]"
    using st by (simp add: filter_epic_step_eq f update_fresh [OF fresh])
  have "fold (filter_epic_step K E) xs (acc @ [(k0, d0)]) = (acc @ [(k0, d0)]) @ xs"
  proof (rule Cons.IH)
    show "distinct (map fst ((acc @ [(k0, d0)]) @ xs))" using Cons.prems(1) by (simp add: x)
    show "\<And>k d. (k, d) \<in> set xs \<Longrightarrow>
           (k \<in> E \<or> children d \<noteq> []) \<and> (\<forall>c \<in> set (children d). key c \<in> K)"
      using Cons.prems(2) by (meson list.set_intros(2))
  qed
  then show ?case by (simp add: x step)
qed

lemma fold_filter_idem:
  "fold (filter_epic_step K E) (fold (filter_epic_step K E) xs []) [] =
     fold (filter_epic_step K E) xs []"
proof -
  let ?R = "fold (filter_epic_step K E) xs []"
  have "fold (filter_epic_step K E) ?R [] = [] @ ?R"
  proof (rule fold_filter_stable)
    show "distinct (map fst ([] @ ?R))" using fold_filter_distinct [of "[]" K E xs] by simp
  next
    fix k d assume "(k, d) \<in> set ?R"
    from fold_filter_entry [OF this]
    obtain d0 where d: "d = d0\<lparr>children := filter (\<lambda>c. key c \<in> K) (children d0)\<rparr>"
      and keep: "k \<in> E \<or> children d \<noteq> []"
      by auto
    from d have "\<forall>c \<in> set (children d). key c \<in> K" by simp
    with keep
    show "(k \<in> E \<or> children d \<noteq> []) \<and> (\<forall>c \<in> set (children d). key c \<in> K)"
      by simp
  qed
  then show ?thesis by simp
qed

subsection \<open>Rows of the report\<close>

lemma generate_epic_summary_unnamed:
  "g_epic_name g = [] \<Longrightarrow>
   generate_epic_summary g =
     generic_summary (length (filter is_done (children g))) (length (children g))"
  by (simp add: generate_epic_summary_def Let_def lower_def)

lemma set_epic_entries_sorted:
  "set (epic_entries_sorted gd) =
     epic_entry (epic_details gd) ` set (epics gd) \<union> standalone_entry ` set (standalone gd)"
  by (simp add: epic_entries_sorted_def epic_entries_def)

lemma table_rows_in_report:
  "e \<in> set (epic_entries_sorted gd) \<Longrightarrow> table_row e \<in> set (md_lines cfg gd)"
  by (simp add: md_lines_def)

lemma epic_entry_description:
  "r_description (epic_entry details (k, g)) =
     (case map_of details k of
        Some info \<Rightarrow>
          if summary info \<noteq> [] then summary info
          else if epic_name info \<noteq> [] then epic_name info
          else if g_epic_name g \<noteq> [] then g_epic_name g
          else ''Epic '' @ k
      | None \<Rightarrow> if g_epic_name g \<noteq> [] then g_epic_name g else ''Epic '' @ k)"
  by (simp add: epic_entry_def Let_def or_else_def split: option.splits)

lemma epic_entry_status:
  "r_status (epic_entry details (k, g)) =
     (case map_of details k of
        Some info \<Rightarrow>
          if status info \<noteq> [] then status info
          else or_else (g_status g) (determine_epic_status g)
      | None \<Rightarrow> or_else (g_status g) (determine_epic_status g))"
  by (simp add: epic_entry_def Let_def or_else_def split: option.splits)

subsection \<open>Pagination\<close>

lemma search_loop_failed_page:
  assumes "\<forall>i<n. continues get m (start_after get m s i)"
    and "get (start_after get m s n) (min m 100) = Inl e"
  shows "search_loop (Suc n + extra) get m s acc = Some (Inl e)"
  using assms
proof (induction n arbitrary: s acc)
  case 0
  then show ?case by simp
next
  case (Suc n)
  from Suc.prems(1) have c: "continues get m s" by fastforce
  then obtain data where data: "get s (min m 100) = Inr data"
    by (auto simp: continues_def split: sum.splits)
  define issues where "issues = (case page_issues data of None \<Rightarrow> [] | Some xs \<Rightarrow> xs)"
  have len: "page_length get m s = length issues"
    by (simp add: page_length_def data issues_def split: option.splits)
  from c data have go: "\<not> (int (s + length issues) \<ge> (case page_total data of None \<Rightarrow> 0 | Some t \<Rightarrow> t)
                           \<or> length issues = 0)"
    by (simp add: continues_def issues_def Let_def split: option.splits)
  have step: "search_loop (Suc (Suc n) + extra) get m s acc =
              search_loop (Suc n + extra) get m (s + length issues) (acc @ issues)"
    using go by (simp add: data Let_def issues_def)
  have "search_loop (Suc n + extra) get m (s + length issues) (acc @ issues) = Some (Inl e)"
  proof (rule Suc.IH)
    show "\<forall>i<n. continues get m (start_after get m (s + length issues) i)"
    proof (intro allI impI)
      fix i assume "i < n"
      then have "Suc i < Suc n" by simp
      with Suc.prems(1) have "continues get m (start_after get m s (Suc i))" by blast
      then show "continues get m (start_after get m (s + length issues) i)" by (simp add: len)
    qed
    show "get (start_after get m (s + length issues) n) (min m 100) = Inl e"
      using Suc.prems(2) by (simp add: len)
  qed
  with step show ?case by simp
qed

subsection \<open>The examples, computed\<close>

lemma ex_query_grouped:
  "group_issues_by_parent ex_query =
     \<lparr>epics = [(''E1'', \<lparr>g_epic_key = ''E1'', g_epic_name = ''Upgrade'',
                         children = [ex_task1, ex_task2], g_status = None\<rparr>)],
      standalone = [], epic_details = []\<rparr>"
  by (simp add: group_issues_by_parent_def ex_query_def ex_epic_def ex_task1_def ex_task2_def
      mk_issue_def group_step_def Let_def)

lemma ex_query_fetched:
  "fetch_sprint_data ex_query ex_no_fetch =
     \<lparr>epics = [(''E1'', \<lparr>g_epic_key = ''E1'', g_epic_name = ''Upgrade'',
                         children = [ex_task1, ex_task2], g_status = None\<rparr>)],
      standalone = [],
      epic_details = [(''E1'', ex_epic)]\<rparr>"
  by (simp add: fetch_sprint_data_def reconcile_def group_issues_by_parent_def group_step_def
      filter_epic_step_def collect_epic_details_def epic_keys_to_fetch_def
      epic_links_from_children_def epics_in_jql_def valid_issue_keys_def
      ex_query_def ex_no_fetch_def ex_task1_def ex_task2_def ex_epic_def mk_issue_def Let_def)

lemma ex_query9_fetched:
  "fetch_sprint_data ex_query9 ex_fetch9 =
     \<lparr>epics = [(''E9'', \<lparr>g_epic_key = ''E9'', g_epic_name = [],
                         children = [ex_task9], g_status = None\<rparr>)],
      standalone = [ex_alone],
      epic_details = [(''E9'', ex_epic9)]\<rparr>"
  by (simp add: fetch_sprint_data_def reconcile_def group_issues_by_parent_def group_step_def
      filter_epic_step_def collect_epic_details_def epic_keys_to_fetch_def
      epic_links_from_children_def epics_in_jql_def valid_issue_keys_def
      ex_query9_def ex_fetch9_def ex_task9_def ex_alone_def ex_epic9_def mk_issue_def Let_def)

lemma ex_query9_unfetched:
  "fetch_sprint_data ex_query9 ex_no_fetch =
     \<lparr>epics = [(''E9'', \<lparr>g_epic_key = ''E9'', g_epic_name = [],
                         children = [ex_task9], g_status = None\<rparr>)],
      standalone = [ex_alone],
      epic_details = []\<rparr>"
  by (simp add: fetch_sprint_data_def reconcile_def group_issues_by_parent_def group_step_def
      filter_epic_step_def collect_epic_details_def epic_keys_to_fetch_def
      epic_links_from_children_def epics_in_jql_def valid_issue_keys_def
      ex_query9_def ex_no_fetch_def ex_task9_def ex_alone_def mk_issue_def Let_def)

section \<open>Properties\<close>

text \<open>
  C1.  Every issue among the children of a group of the final grouped data, and every
  issue of its standalone list, is one of the parsed issues of the query, so its key
  is in the key set of the query.  The epics and the standalone list do not depend on
  what the supplementary query returns: its records only go to \<^verbatim>\<open>epic_details\<close>.
\<close>

theorem report_keys_from_query:
  "(\<forall>(k, g) \<in> set (epics (fetch_sprint_data parsed_issues fetch_epics)).
      \<forall>c \<in> set (children g). key c \<in> valid_issue_keys parsed_issues \<and> c \<in> set parsed_issues) \<and>
   (\<forall>i \<in> set (standalone (fetch_sprint_data parsed_issues fetch_epics)).
      key i \<in> valid_issue_keys parsed_issues \<and> i \<in> set parsed_issues) \<and>
   epics (fetch_sprint_data parsed_issues fetch_epics) =
     epics (fetch_sprint_data parsed_issues other_epics) \<and>
   standalone (fetch_sprint_data parsed_issues fetch_epics) =
     standalone (fetch_sprint_data parsed_issues other_epics)"
proof -
  have children_ok:
    "\<forall>(k, g) \<in> set (epics (fetch_sprint_data parsed_issues fetch_epics)).
      \<forall>c \<in> set (children g). key c \<in> valid_issue_keys parsed_issues \<and> c \<in> set parsed_issues"
  proof (rule ballI)
    fix kg assume kg: "kg \<in> set (epics (fetch_sprint_data parsed_issues fetch_epics))"
    obtain k g where [simp]: "kg = (k, g)" by (cases kg)
    from kg have "(k, g) \<in> set (fold (filter_epic_step (valid_issue_keys parsed_issues)
         (epics_in_jql parsed_issues)) (epics (group_issues_by_parent parsed_issues)) [])"
      by (simp add: fetch_sprint_data_def reconcile_def)
    from fold_filter_entry [OF this]
    obtain g0 where g0: "(k, g0) \<in> set (epics (group_issues_by_parent parsed_issues))"
      and g: "g = g0\<lparr>children :=
                filter (\<lambda>c. key c \<in> valid_issue_keys parsed_issues) (children g0)\<rparr>"
      by auto
    from group_children_subset [OF g0] g
    have "\<forall>c \<in> set (children g).
            key c \<in> valid_issue_keys parsed_issues \<and> c \<in> set parsed_issues"
      by auto
    then show "case kg of (k, g) \<Rightarrow>
       \<forall>c \<in> set (children g). key c \<in> valid_issue_keys parsed_issues \<and> c \<in> set parsed_issues"
      by simp
  qed
  have standalone_ok:
    "\<forall>i \<in> set (standalone (fetch_sprint_data parsed_issues fetch_epics)).
      key i \<in> valid_issue_keys parsed_issues \<and> i \<in> set parsed_issues"
  proof (rule ballI)
    fix i assume "i \<in> set (standalone (fetch_sprint_data parsed_issues fetch_epics))"
    then have "key i \<in> valid_issue_keys parsed_issues"
      and "i \<in> set (standalone (group_issues_by_parent parsed_issues))"
      by (simp_all add: fetch_sprint_data_def reconcile_def)
    with group_standalone_subset [of parsed_issues]
    show "key i \<in> valid_issue_keys parsed_issues \<and> i \<in> set parsed_issues" by auto
  qed
  have "epics (fetch_sprint_data parsed_issues fetch_epics) =
     epics (fetch_sprint_data parsed_issues other_epics)"
    and "standalone (fetch_sprint_data parsed_issues fetch_epics) =
     standalone (fetch_sprint_data parsed_issues other_epics)"
    by (simp_all add: fetch_sprint_data_def reconcile_def)
  with children_ok standalone_ok show ?thesis by (intro conjI)
qed

theorem report_keys_from_query_witness:
  "(''E9'', \<lparr>g_epic_key = ''E9'', g_epic_name = [], children = [ex_task9], g_status = None\<rparr>)
      \<in> set (epics (fetch_sprint_data ex_query9 ex_fetch9)) \<and>
   key ex_task9 \<in> valid_issue_keys ex_query9 \<and> ex_task9 \<in> set ex_query9 \<and>
   ex_alone \<in> set (standalone (fetch_sprint_data ex_query9 ex_fetch9)) \<and>
   key ex_alone \<in> valid_issue_keys ex_query9 \<and> ex_alone \<in> set ex_query9 \<and>
   epic_details (fetch_sprint_data ex_query9 ex_fetch9) = [(''E9'', ex_epic9)] \<and>
   key ex_epic9 \<notin> valid_issue_keys ex_query9"
proof -
  have m: "(''E9'', \<lparr>g_epic_key = ''E9'', g_epic_name = [], children = [ex_task9],
                     g_status = None\<rparr>)
      \<in> set (epics (fetch_sprint_data ex_query9 ex_fetch9))"
    and a: "ex_alone \<in> set (standalone (fetch_sprint_data ex_query9 ex_fetch9))"
    and d: "epic_details (fetch_sprint_data ex_query9 ex_fetch9) = [(''E9'', ex_epic9)]"
    by (simp_all add: ex_query9_fetched)
  have n: "key ex_epic9 \<notin> valid_issue_keys ex_query9"
    by (simp add: valid_issue_keys_def ex_query9_def ex_task9_def ex_alone_def ex_epic9_def
        mk_issue_def)
  from report_keys_from_query [of ex_query9 ex_fetch9 ex_fetch9] m a
  have "key ex_task9 \<in> valid_issue_keys ex_query9 \<and> ex_task9 \<in> set ex_query9"
    and "key ex_alone \<in> valid_issue_keys ex_query9 \<and> ex_alone \<in> set ex_query9"
    by fastforce+
  with m a d n show ?thesis by simp
qed

text \<open>
  C2.  For every epic group, \<^verbatim>\<open>determine_epic_status\<close> returns \<^verbatim>\<open>Unknown\<close> exactly when
  the group has no children, \<^verbatim>\<open>Done\<close> exactly when it has children and the status category
  of every child equals \<^verbatim>\<open>done\<close> up to case, and \<^verbatim>\<open>In Progress\<close> exactly in the
  remaining case.
\<close>

theorem determine_epic_status_spec:
  "(determine_epic_status g = ''Unknown'' \<longleftrightarrow> children g = []) \<and>
   (determine_epic_status g = ''Done'' \<longleftrightarrow>
      children g \<noteq> [] \<and>
      (\<forall>c \<in> set (children g). eq_ignore_case (status_category c) ''done'')) \<and>
   (determine_epic_status g = ''In Progress'' \<longleftrightarrow>
      children g \<noteq> [] \<and>
      \<not> (\<forall>c \<in> set (children g). eq_ignore_case (status_category c) ''done''))"
  by (simp add: determine_epic_status_def Let_def count_ones length_filter_all
      eq_ignore_case_lower lower_done)

theorem determine_epic_status_spec_witness:
  "children \<lparr>g_epic_key = ''E1'', g_epic_name = ''Upgrade'',
             children = [ex_task1, ex_task9], g_status = None\<rparr> \<noteq> [] \<and>
   list_all (\<lambda>c. eq_ignore_case (status_category c) ''done'') [ex_task1, ex_task9] \<and>
   determine_epic_status \<lparr>g_epic_key = ''E1'', g_epic_name = ''Upgrade'',
             children = [ex_task1, ex_task9], g_status = None\<rparr> = ''Done''"
proof -
  have "list_all (\<lambda>c. eq_ignore_case (status_category c) ''done'') [ex_task1, ex_task9]"
    by (simp add: ex_task1_def ex_task9_def mk_issue_def eq_ignore_case_def lower_char_def
        is_upper_def)
  with determine_epic_status_spec [of "\<lparr>g_epic_key = ''E1'', g_epic_name = ''Upgrade'',
             children = [ex_task1, ex_task9], g_status = None\<rparr>"]
  show ?thesis by (simp add: list_all_iff)
qed

text \<open>
  C3, as the code has it.  When a page request fails with a \<^verbatim>\<open>RequestException\<close>, after
  any number \<open>n\<close> of pages that were fetched and after which the loop went on,
  \<^verbatim>\<open>search_issues\<close> returns the empty list: the issues accumulated so far are dropped.
  (Fuel for \<open>n + 1\<close> requests is enough for the call to return.)
\<close>

theorem search_issues_failed_page:
  assumes "\<forall>i<n. continues get max_results (start_after get max_results 0 i)"
    and "get (start_after get max_results 0 n) (min max_results 100) = Inl e"
    and "n < fuel"
  shows "search_issues fuel get max_results = Some []"
proof -
  from assms(3) obtain extra where "fuel = Suc n + extra"
    by (metis add_Suc less_iff_Suc_add)
  with search_loop_failed_page [OF assms(1,2), of extra "[]"]
  show ?thesis by (simp add: search_issues_def)
qed

theorem search_issues_failed_page_witness:
  "continues ex_server 2000 (start_after ex_server 2000 0 0) \<and>
   ex_server (start_after ex_server 2000 0 1) (min 2000 100) = Inl RequestException \<and>
   search_issues 2 ex_server 2000 = Some []"
proof -
  have c: "\<forall>i<1. continues ex_server 2000 (start_after ex_server 2000 0 i)"
    by (simp add: continues_def ex_server_def)
  have f: "ex_server (start_after ex_server 2000 0 1) (min 2000 100) = Inl RequestException"
    by (simp add: page_length_def ex_server_def)
  have "(1::nat) < 2" by simp
  from search_issues_failed_page [OF c f this] c f show ?thesis by simp
qed

text \<open>
  C3, as the specification states it, fails: the first page is fetched and holds the
  issue \<^verbatim>\<open>A-1\<close>, the second request fails, and the result is the empty list, not the
  list of the issues fetched so far.
\<close>

theorem search_issues_truncation_counterexample:
  "ex_server 0 (min 2000 100) = Inr \<lparr>page_issues = Some [''A-1''], page_total = Some 2\<rparr> \<and>
   ex_server 1 (min 2000 100) = Inl RequestException \<and>
   search_issues 2 ex_server 2000 = Some [] \<and>
   search_issues 2 ex_server 2000 \<noteq> Some [''A-1'']"
  by (simp add: search_issues_def ex_server_def numeral_2_eq_2)

text \<open>
  C4 at the inputs where the code departs from it.  A raw issue whose description is
  \<^verbatim>\<open>null\<close> is normalised to an issue whose description is \<^verbatim>\<open>None\<close>, not the empty
  string; a raw issue whose status is \<^verbatim>\<open>null\<close> raises \<^verbatim>\<open>AttributeError\<close>; a
  \<^verbatim>\<open>null\<close> assignee, which the code guards, does become the empty string.
\<close>

theorem parse_issue_null_fields:
  "parse_issue ex_raw_no_description =
     Inr \<lparr>key = JStr ''A-1'', summary = JStr ''Fix login'', description = JNull,
          status = JStr [], status_category = JStr [], issuetype = JStr [],
          epic_link = JStr [], epic_name = JStr [], parent_key = JStr [],
          parent_summary = JStr [], assignee = JStr [], created = JStr [],
          updated = JStr [], sprint = JStr []\<rparr> \<and>
   parse_issue ex_raw_null_status = Inl AttributeError \<and>
   parse_issue ex_raw_no_assignee =
     Inr \<lparr>key = JStr ''A-2'', summary = JStr ''Fix logout'', description = JStr [],
          status = JStr [], status_category = JStr [], issuetype = JStr [],
          epic_link = JStr [], epic_name = JStr [], parent_key = JStr [],
          parent_summary = JStr [], assignee = JStr [], created = JStr [],
          updated = JStr [], sprint = JStr []\<rparr>"
  by (simp add: parse_issue_def and_then_def py_get2_def py_get3_def
      ex_raw_no_description_def ex_raw_null_status_def ex_raw_no_assignee_def)

text \<open>
  C5, as the code has it.  The description of the row of an epic is the summary of the
  epic's record in \<^verbatim>\<open>epic_details\<close> if that is not empty, else the epic name of that
  record if that is not empty, else the name of the group if that is not empty, else
  \<^verbatim>\<open>Epic\<close> followed by the key; without a record in \<^verbatim>\<open>epic_details\<close> it is the
  name of the group or, if that is empty, \<^verbatim>\<open>Epic\<close> followed by the key.  The
  description of the row of a standalone issue is its summary.  The rows of the table
  are exactly these rows, and each is a line of the report.
\<close>

theorem epic_description_column:
  "(\<forall>(k, g) \<in> set (epics gd).
      epic_entry (epic_details gd) (k, g) \<in> set (epic_entries_sorted gd) \<and>
      table_row (epic_entry (epic_details gd) (k, g)) \<in> set (md_lines cfg gd) \<and>
      r_description (epic_entry (epic_details gd) (k, g)) =
        (case map_of (epic_details gd) k of
           Some info \<Rightarrow>
             if summary info \<noteq> [] then summary info
             else if epic_name info \<noteq> [] then epic_name info
             else if g_epic_name g \<noteq> [] then g_epic_name g
             else ''Epic '' @ k
         | None \<Rightarrow> if g_epic_name g \<noteq> [] then g_epic_name g else ''Epic '' @ k)) \<and>
   (\<forall>i \<in> set (standalone gd).
      standalone_entry i \<in> set (epic_entries_sorted gd) \<and>
      table_row (standalone_entry i) \<in> set (md_lines cfg gd) \<and>
      r_description (standalone_entry i) = summary i) \<and>
   set (epic_entries_sorted gd) =
     epic_entry (epic_details gd) ` set (epics gd) \<union> standalone_entry ` set (standalone gd)"
proof -
  have "epic_entry (epic_details gd) (k, g) \<in> set (epic_entries_sorted gd)"
    if "(k, g) \<in> set (epics gd)" for k g
    using that by (simp add: set_epic_entries_sorted)
  moreover have "standalone_entry i \<in> set (epic_entries_sorted gd)"
    if "i \<in> set (standalone gd)" for i
    using that by (simp add: set_epic_entries_sorted)
  moreover have "r_description (standalone_entry i) = summary i" for i
    by (simp add: standalone_entry_def)
  ultimately show ?thesis
    using set_epic_entries_sorted [of gd]
    by (auto simp only: epic_entry_description table_rows_in_report split: prod.splits)
qed

theorem epic_description_column_witness:
  "(''E1'', \<lparr>g_epic_key = ''E1'', g_epic_name = ''Upgrade'',
              children = [ex_task1, ex_task2], g_status = None\<rparr>)
      \<in> set (epics (fetch_sprint_data ex_query ex_no_fetch)) \<and>
   map_of (epic_details (fetch_sprint_data ex_query ex_no_fetch)) ''E1'' = Some ex_epic \<and>
   r_description (epic_entry (epic_details (fetch_sprint_data ex_query ex_no_fetch))
      (''E1'', \<lparr>g_epic_key = ''E1'', g_epic_name = ''Upgrade'',
              children = [ex_task1, ex_task2], g_status = None\<rparr>)) = ''Platform work'' \<and>
   ex_alone \<in> set (standalone (fetch_sprint_data ex_query9 ex_fetch9)) \<and>
   standalone_entry ex_alone \<in> set (epic_entries_sorted (fetch_sprint_data ex_query9 ex_fetch9)) \<and>
   r_description (standalone_entry ex_alone) = ''Standalone work''"
proof -
  have m: "(''E1'', \<lparr>g_epic_key = ''E1'', g_epic_name = ''Upgrade'',
              children = [ex_task1, ex_task2], g_status = None\<rparr>)
      \<in> set (epics (fetch_sprint_data ex_query ex_no_fetch))"
    and d: "map_of (epic_details (fetch_sprint_data ex_query ex_no_fetch)) ''E1'' = Some ex_epic"
    by (simp_all add: ex_query_fetched)
  have s: "summary ex_epic = ''Platform work''" by (simp add: ex_epic_def mk_issue_def)
  from epic_description_column [of "fetch_sprint_data ex_query ex_no_fetch" ex_cfg] m
  have "r_description (epic_entry (epic_details (fetch_sprint_data ex_query ex_no_fetch))
      (''E1'', \<lparr>g_epic_key = ''E1'', g_epic_name = ''Upgrade'',
              children = [ex_task1, ex_task2], g_status = None\<rparr>)) =
      (case map_of (epic_details (fetch_sprint_data ex_query ex_no_fetch)) ''E1'' of
           Some info \<Rightarrow>
             if summary info \<noteq> [] then summary info
             else if epic_name info \<noteq> [] then epic_name info
             else if g_epic_name \<lparr>g_epic_key = ''E1'', g_epic_name = ''Upgrade'',
              children = [ex_task1, ex_task2], g_status = None\<rparr> \<noteq> [] then g_epic_name \<lparr>g_epic_key = ''E1'', g_epic_name = ''Upgrade'',
              children = [ex_task1, ex_task2], g_status = None\<rparr>
             else ''Epic '' @ ''E1''
         | None \<Rightarrow> if g_epic_name \<lparr>g_epic_key = ''E1'', g_epic_name = ''Upgrade'',
              children = [ex_task1, ex_task2], g_status = None\<rparr> \<noteq> [] then g_epic_name \<lparr>g_epic_key = ''E1'', g_epic_name = ''Upgrade'',
              children = [ex_task1, ex_task2], g_status = None\<rparr> else ''Epic '' @ ''E1'')"
    by fastforce
  with d s have e: "r_description (epic_entry (epic_details (fetch_sprint_data ex_query ex_no_fetch))
      (''E1'', \<lparr>g_epic_key = ''E1'', g_epic_name = ''Upgrade'',
              children = [ex_task1, ex_task2], g_status = None\<rparr>)) = ''Platform work''"
    by simp
  have a: "ex_alone \<in> set (standalone (fetch_sprint_data ex_query9 ex_fetch9))"
    by (simp add: ex_query9_fetched)
  with epic_description_column [of "fetch_sprint_data ex_query9 ex_fetch9" ex_cfg]
  have "standalone_entry ex_alone \<in> set (epic_entries_sorted (fetch_sprint_data ex_query9 ex_fetch9))"
    and "r_description (standalone_entry ex_alone) = summary ex_alone"
    by blast+
  with m d e a show ?thesis by (simp add: ex_alone_def mk_issue_def)
qed

text \<open>
  C5, as the specification states it, fails: the epic \<^verbatim>\<open>E1\<close> of the query has the name
  \<^verbatim>\<open>Upgrade\<close> and the summary \<^verbatim>\<open>Platform work\<close>; the name is not empty, and the
  description of its row, the only row of the table, is the summary.
\<close>

theorem epic_description_counterexample:
  "epics (fetch_sprint_data ex_query ex_no_fetch) = [(''E1'', \<lparr>g_epic_key = ''E1'', g_epic_name = ''Upgrade'',
              children = [ex_task1, ex_task2], g_status = None\<rparr>)] \<and>
   epic_name ex_epic = ''Upgrade'' \<and>
   g_epic_name \<lparr>g_epic_key = ''E1'', g_epic_name = ''Upgrade'',
              children = [ex_task1, ex_task2], g_status = None\<rparr> = ''Upgrade'' \<and>
   map r_description (epic_entries_sorted (fetch_sprint_data ex_query ex_no_fetch)) =
     [''Platform work'']"
  by (simp add: ex_query_fetched epic_entries_sorted_def epic_entries_def epic_entry_def
      or_else_def ex_epic_def mk_issue_def Let_def)

text \<open>
  C6.  Reconciliation is idempotent: for every list of parsed issues, every answer of
  the supplementary query and every grouped data, reconciling the reconciled data again
  returns it unchanged.
\<close>

theorem reconcile_idempotent:
  "reconcile parsed_issues fetch_epics (reconcile parsed_issues fetch_epics grouped) =
     reconcile parsed_issues fetch_epics grouped"
  by (simp add: reconcile_def fold_filter_idem)

theorem reconcile_idempotent_witness:
  "reconcile ex_query9 ex_fetch9 (fetch_sprint_data ex_query9 ex_fetch9) =
     fetch_sprint_data ex_query9 ex_fetch9"
  using reconcile_idempotent [of ex_query9 ex_fetch9 "group_issues_by_parent ex_query9"]
  by (simp add: fetch_sprint_data_def)

text \<open>
  C7.  \<^verbatim>\<open>group_issues_by_parent\<close> preserves order: the children of every group of the
  result are a subsequence of the input, so they stand in the relative order in which
  the input has them.
\<close>

theorem group_children_order:
  "\<forall>(k, g) \<in> set (epics (group_issues_by_parent issues)). subseq (children g) issues"
  using fold_group_subseq [of "\<lparr>epics = [], standalone = [], epic_details = []\<rparr>" "[]" issues]
  by (simp add: group_issues_by_parent_def)

theorem group_children_order_witness:
  "(''E1'', \<lparr>g_epic_key = ''E1'', g_epic_name = ''Upgrade'',
             children = [ex_task1, ex_task2], g_status = None\<rparr>)
     \<in> set (epics (group_issues_by_parent ex_query)) \<and>
   subseq [ex_task1, ex_task2] ex_query"
proof -
  have "(''E1'', \<lparr>g_epic_key = ''E1'', g_epic_name = ''Upgrade'',
             children = [ex_task1, ex_task2], g_status = None\<rparr>)
     \<in> set (epics (group_issues_by_parent ex_query))"
    by (simp add: ex_query_grouped)
  with group_children_order [of ex_query] show ?thesis by fastforce
qed

text \<open>
  C8.  The status of the row of an epic is the status of the epic's record in
  \<^verbatim>\<open>epic_details\<close> when there is one and it is not empty, else the \<^verbatim>\<open>status\<close> entry
  of the group when there is one and it is not empty; \<^verbatim>\<open>determine_epic_status\<close> is
  used only when neither is there.  The row is a row of the table and a line of the
  report.
\<close>

theorem epic_status_column:
  "\<forall>(k, g) \<in> set (epics gd).
      epic_entry (epic_details gd) (k, g) \<in> set (epic_entries_sorted gd) \<and>
      table_row (epic_entry (epic_details gd) (k, g)) \<in> set (md_lines cfg gd) \<and>
      r_status (epic_entry (epic_details gd) (k, g)) =
        (case map_of (epic_details gd) k of
           Some info \<Rightarrow>
             if status info \<noteq> [] then status info
             else (case g_status g of
                     Some s \<Rightarrow> if s \<noteq> [] then s else determine_epic_status g
                   | None \<Rightarrow> determine_epic_status g)
         | None \<Rightarrow>
             (case g_status g of
                Some s \<Rightarrow> if s \<noteq> [] then s else determine_epic_status g
              | None \<Rightarrow> determine_epic_status g))"
proof (rule ballI)
  fix kg assume kg: "kg \<in> set (epics gd)"
  obtain k g where [simp]: "kg = (k, g)" by (cases kg)
  from kg have m: "epic_entry (epic_details gd) (k, g) \<in> set (epic_entries_sorted gd)"
    by (simp add: set_epic_entries_sorted)
  have s: "r_status (epic_entry (epic_details gd) (k, g)) =
        (case map_of (epic_details gd) k of
           Some info \<Rightarrow>
             if status info \<noteq> [] then status info
             else (case g_status g of
                     Some s \<Rightarrow> if s \<noteq> [] then s else determine_epic_status g
                   | None \<Rightarrow> determine_epic_status g)
         | None \<Rightarrow>
             (case g_status g of
                Some s \<Rightarrow> if s \<noteq> [] then s else determine_epic_status g
              | None \<Rightarrow> determine_epic_status g))"
    by (simp add: epic_entry_status or_else_def split: option.splits)
  from m s table_rows_in_report [OF m, of cfg]
  show "case kg of (k, g) \<Rightarrow>
      epic_entry (epic_details gd) (k, g) \<in> set (epic_entries_sorted gd) \<and>
      table_row (epic_entry (epic_details gd) (k, g)) \<in> set (md_lines cfg gd) \<and>
      r_status (epic_entry (epic_details gd) (k, g)) =
        (case map_of (epic_details gd) k of
           Some info \<Rightarrow>
             if status info \<noteq> [] then status info
             else (case g_status g of
                     Some s \<Rightarrow> if s \<noteq> [] then s else determine_epic_status g
                   | None \<Rightarrow> determine_epic_status g)
         | None \<Rightarrow>
             (case g_status g of
                Some s \<Rightarrow> if s \<noteq> [] then s else determine_epic_status g
              | None \<Rightarrow> determine_epic_status g))"
    by simp
qed

theorem epic_status_column_witness:
  "(''E9'', \<lparr>g_epic_key = ''E9'', g_epic_name = [], children = [ex_task9], g_status = None\<rparr>) \<in> set (epics (fetch_sprint_data ex_query9 ex_fetch9)) \<and>
   map_of (epic_details (fetch_sprint_data ex_query9 ex_fetch9)) ''E9'' = Some ex_epic9 \<and>
   status ex_epic9 = ''Open'' \<and>
   determine_epic_status \<lparr>g_epic_key = ''E9'', g_epic_name = [], children = [ex_task9], g_status = None\<rparr> = ''Done'' \<and>
   r_status (epic_entry (epic_details (fetch_sprint_data ex_query9 ex_fetch9)) (''E9'', \<lparr>g_epic_key = ''E9'', g_epic_name = [], children = [ex_task9], g_status = None\<rparr>)) =
     ''Open'' \<and>
   (''E9'', \<lparr>g_epic_key = ''E9'', g_epic_name = [], children = [ex_task9], g_status = None\<rparr>) \<in> set (epics (fetch_sprint_data ex_query9 ex_no_fetch)) \<and>
   map_of (epic_details (fetch_sprint_data ex_query9 ex_no_fetch)) ''E9'' = None \<and>
   r_status (epic_entry (epic_details (fetch_sprint_data ex_query9 ex_no_fetch)) (''E9'', \<lparr>g_epic_key = ''E9'', g_epic_name = [], children = [ex_task9], g_status = None\<rparr>)) =
     ''Done''"
proof -
  have m: "(''E9'', \<lparr>g_epic_key = ''E9'', g_epic_name = [], children = [ex_task9], g_status = None\<rparr>) \<in> set (epics (fetch_sprint_data ex_query9 ex_fetch9))"
    and d: "map_of (epic_details (fetch_sprint_data ex_query9 ex_fetch9)) ''E9'' = Some ex_epic9"
    by (simp_all add: ex_query9_fetched)
  have m': "(''E9'', \<lparr>g_epic_key = ''E9'', g_epic_name = [], children = [ex_task9], g_status = None\<rparr>) \<in> set (epics (fetch_sprint_data ex_query9 ex_no_fetch))"
    and d': "map_of (epic_details (fetch_sprint_data ex_query9 ex_no_fetch)) ''E9'' = None"
    by (simp_all add: ex_query9_unfetched)
  have s: "status ex_epic9 = ''Open''" by (simp add: ex_epic9_def mk_issue_def)
  have dn: "determine_epic_status \<lparr>g_epic_key = ''E9'', g_epic_name = [], children = [ex_task9], g_status = None\<rparr> = ''Done''"
    by (simp add: determine_epic_status_def ex_task9_def mk_issue_def lower_def lower_char_def
        is_upper_def)
  from epic_status_column [of "fetch_sprint_data ex_query9 ex_fetch9" ex_cfg] m
  have "r_status (epic_entry (epic_details (fetch_sprint_data ex_query9 ex_fetch9)) (''E9'', \<lparr>g_epic_key = ''E9'', g_epic_name = [], children = [ex_task9], g_status = None\<rparr>)) =
        (case map_of (epic_details (fetch_sprint_data ex_query9 ex_fetch9)) ''E9'' of
           Some info \<Rightarrow>
             if status info \<noteq> [] then status info
             else (case g_status \<lparr>g_epic_key = ''E9'', g_epic_name = [], children = [ex_task9], g_status = None\<rparr> of
                     Some s \<Rightarrow> if s \<noteq> [] then s else determine_epic_status \<lparr>g_epic_key = ''E9'', g_epic_name = [], children = [ex_task9], g_status = None\<rparr>
                   | None \<Rightarrow> determine_epic_status \<lparr>g_epic_key = ''E9'', g_epic_name = [], children = [ex_task9], g_status = None\<rparr>)
         | None \<Rightarrow>
             (case g_status \<lparr>g_epic_key = ''E9'', g_epic_name = [], children = [ex_task9], g_status = None\<rparr> of
                Some s \<Rightarrow> if s \<noteq> [] then s else determine_epic_status \<lparr>g_epic_key = ''E9'', g_epic_name = [], children = [ex_task9], g_status = None\<rparr>
              | None \<Rightarrow> determine_epic_status \<lparr>g_epic_key = ''E9'', g_epic_name = [], children = [ex_task9], g_status = None\<rparr>))"
    by fastforce
  with d s have r: "r_status (epic_entry (epic_details (fetch_sprint_data ex_query9 ex_fetch9))
      (''E9'', \<lparr>g_epic_key = ''E9'', g_epic_name = [], children = [ex_task9], g_status = None\<rparr>)) = ''Open''"
    by simp
  from epic_status_column [of "fetch_sprint_data ex_query9 ex_no_fetch" ex_cfg] m'
  have "r_status (epic_entry (epic_details (fetch_sprint_data ex_query9 ex_no_fetch)) (''E9'', \<lparr>g_epic_key = ''E9'', g_epic_name = [], children = [ex_task9], g_status = None\<rparr>)) =
        (case map_of (epic_details (fetch_sprint_data ex_query9 ex_no_fetch)) ''E9'' of
           Some info \<Rightarrow>
             if status info \<noteq> [] then status info
             else (case g_status \<lparr>g_epic_key = ''E9'', g_epic_name = [], children = [ex_task9], g_status = None\<rparr> of
                     Some s \<Rightarrow> if s \<noteq> [] then s else determine_epic_status \<lparr>g_epic_key = ''E9'', g_epic_name = [], children = [ex_task9], g_status = None\<rparr>
                   | None \<Rightarrow> determine_epic_status \<lparr>g_epic_key = ''E9'', g_epic_name = [], children = [ex_task9], g_status = None\<rparr>)
         | None \<Rightarrow>
             (case g_status \<lparr>g_epic_key = ''E9'', g_epic_name = [], children = [ex_task9], g_status = None\<rparr> of
                Some s \<Rightarrow> if s \<noteq> [] then s else determine_epic_status \<lparr>g_epic_key = ''E9'', g_epic_name = [], children = [ex_task9], g_status = None\<rparr>
              | None \<Rightarrow> determine_epic_status \<lparr>g_epic_key = ''E9'', g_epic_name = [], children = [ex_task9], g_status = None\<rparr>))"
    by fastforce
  with d' dn have r': "r_status (epic_entry (epic_details (fetch_sprint_data ex_query9 ex_no_fetch))
      (''E9'', \<lparr>g_epic_key = ''E9'', g_epic_name = [], children = [ex_task9], g_status = None\<rparr>)) = ''Done''"
    by simp
  from m d s dn r m' d' r' show ?thesis by simp
qed

text \<open>
  C9.  A group of the final grouped data whose key is not the key of an epic of the
  query (it was created from the epic link of a child and never overwritten) has the
  empty name; \<^verbatim>\<open>generate_epic_summary\<close> takes the generic, count-based branch for it,
  and so does the details column of its row, whatever \<^verbatim>\<open>epic_details\<close> holds.
\<close>

theorem reconciled_epic_generic_summary:
  "\<forall>(k, g) \<in> set (epics (fetch_sprint_data parsed_issues fetch_epics)).
     k \<notin> epics_in_jql parsed_issues \<longrightarrow>
       g_epic_name g = [] \<and>
       generate_epic_summary g =
         generic_summary (length (filter is_done (children g))) (length (children g)) \<and>
       (\<forall>details. r_details (epic_entry details (k, g)) =
         generic_summary (length (filter is_done (children g))) (length (children g)))"
proof (intro ballI)
  fix kg assume kg: "kg \<in> set (epics (fetch_sprint_data parsed_issues fetch_epics))"
  obtain k g where [simp]: "kg = (k, g)" by (cases kg)
  from kg have "(k, g) \<in> set (fold (filter_epic_step (valid_issue_keys parsed_issues)
       (epics_in_jql parsed_issues)) (epics (group_issues_by_parent parsed_issues)) [])"
    by (simp add: fetch_sprint_data_def reconcile_def)
  from fold_filter_entry [OF this]
  obtain g0 where g0: "(k, g0) \<in> set (epics (group_issues_by_parent parsed_issues))"
    and g: "g = g0\<lparr>children := filter (\<lambda>c. key c \<in> valid_issue_keys parsed_issues) (children g0)\<rparr>"
    by auto
  have "g_epic_name g = []" if "k \<notin> epics_in_jql parsed_issues"
    using group_lazy_name [OF g0 that] g by simp
  then show "case kg of (k, g) \<Rightarrow>
     k \<notin> epics_in_jql parsed_issues \<longrightarrow>
       g_epic_name g = [] \<and>
       generate_epic_summary g =
         generic_summary (length (filter is_done (children g))) (length (children g)) \<and>
       (\<forall>details. r_details (epic_entry details (k, g)) =
         generic_summary (length (filter is_done (children g))) (length (children g)))"
    by (simp add: generate_epic_summary_unnamed epic_entry_def Let_def)
qed

theorem reconciled_epic_generic_summary_witness:
  "(''E9'', \<lparr>g_epic_key = ''E9'', g_epic_name = [], children = [ex_task9], g_status = None\<rparr>)
      \<in> set (epics (fetch_sprint_data ex_query9 ex_fetch9)) \<and>
   ''E9'' \<notin> epics_in_jql ex_query9 \<and>
   map_of (epic_details (fetch_sprint_data ex_query9 ex_fetch9)) ''E9'' = Some ex_epic9 \<and>
   epic_name ex_epic9 = ''ArgoCD migration - ingress'' \<and>
   r_details (epic_entry (epic_details (fetch_sprint_data ex_query9 ex_fetch9))
      (''E9'', \<lparr>g_epic_key = ''E9'', g_epic_name = [], children = [ex_task9],
                g_status = None\<rparr>)) = ''Completed all 1 related tasks.''"
proof -
  have m: "(''E9'', \<lparr>g_epic_key = ''E9'', g_epic_name = [], children = [ex_task9],
                     g_status = None\<rparr>)
      \<in> set (epics (fetch_sprint_data ex_query9 ex_fetch9))"
    and d: "map_of (epic_details (fetch_sprint_data ex_query9 ex_fetch9)) ''E9'' = Some ex_epic9"
    by (simp_all add: ex_query9_fetched)
  have n: "''E9'' \<notin> epics_in_jql ex_query9"
    by (simp add: epics_in_jql_def ex_query9_def ex_task9_def ex_alone_def mk_issue_def)
  have e: "epic_name ex_epic9 = ''ArgoCD migration - ingress''"
    by (simp add: ex_epic9_def mk_issue_def)
  have g: "generic_summary (length (filter is_done [ex_task9])) (length [ex_task9]) =
             ''Completed all 1 related tasks.''"
    by (simp add: generic_summary_def is_done_def ex_task9_def mk_issue_def lower_def
        lower_char_def is_upper_def str_nat.simps)
  from reconciled_epic_generic_summary [of ex_query9 ex_fetch9] m n
  have "r_details (epic_entry (epic_details (fetch_sprint_data ex_query9 ex_fetch9))
      (''E9'', \<lparr>g_epic_key = ''E9'', g_epic_name = [], children = [ex_task9],
                g_status = None\<rparr>)) =
        generic_summary (length (filter is_done [ex_task9])) (length [ex_task9])"
    by fastforce
  with m n d e g show ?thesis by simp
qed

text \<open>
  C10.  In \<^verbatim>\<open>group_issues_by_parent\<close>, an issue of type \<^verbatim>\<open>Epic\<close> is only registered as
  a group: no child of any group and no standalone issue of the result has the type
  \<^verbatim>\<open>Epic\<close> (whatever its epic link), and the key of every epic of the input is a key
  of the epics of the result.
\<close>

theorem epic_only_registered:
  "(\<forall>(k, g) \<in> set (epics (group_issues_by_parent issues)).
      \<forall>c \<in> set (children g). issuetype c \<noteq> ''Epic'') \<and>
   (\<forall>i \<in> set (standalone (group_issues_by_parent issues)). issuetype i \<noteq> ''Epic'') \<and>
   (\<forall>x \<in> set issues. issuetype x = ''Epic'' \<longrightarrow>
      key x \<in> fst ` set (epics (group_issues_by_parent issues)))"
proof -
  have "no_epic_inside \<lparr>epics = [], standalone = [], epic_details = []\<rparr>"
    by (simp add: no_epic_inside_def)
  from fold_group_no_epic_inside [OF this, of issues]
  have "no_epic_inside (group_issues_by_parent issues)"
    by (simp add: group_issues_by_parent_def)
  moreover have "key x \<in> fst ` set (epics (group_issues_by_parent issues))"
    if "x \<in> set issues" "issuetype x = ''Epic''" for x
    unfolding group_issues_by_parent_def using that by (rule fold_group_registers)
  ultimately show ?thesis
    unfolding no_epic_inside_def by blast
qed

theorem epic_only_registered_witness:
  "issuetype ex_sub_epic = ''Epic'' \<and> epic_link ex_sub_epic = ''E1'' \<and>
   epics (group_issues_by_parent [ex_epic, ex_sub_epic, ex_task1]) =
     [(''E1'', \<lparr>g_epic_key = ''E1'', g_epic_name = ''Upgrade'',
                children = [ex_task1], g_status = None\<rparr>),
      (''E2'', \<lparr>g_epic_key = ''E2'', g_epic_name = ''Sub-epic'',
                children = [], g_status = None\<rparr>)] \<and>
   standalone (group_issues_by_parent [ex_epic, ex_sub_epic, ex_task1]) = [] \<and>
   issuetype ex_task1 \<noteq> ''Epic'' \<and>
   key ex_sub_epic \<in> fst ` set (epics (group_issues_by_parent [ex_epic, ex_sub_epic, ex_task1]))"
proof -
  have "group_issues_by_parent [ex_epic, ex_sub_epic, ex_task1] =
     \<lparr>epics = [(''E1'', \<lparr>g_epic_key = ''E1'', g_epic_name = ''Upgrade'',
                children = [ex_task1], g_status = None\<rparr>),
      (''E2'', \<lparr>g_epic_key = ''E2'', g_epic_name = ''Sub-epic'',
                children = [], g_status = None\<rparr>)],
      standalone = [], epic_details = []\<rparr>"
    by (simp add: group_issues_by_parent_def ex_epic_def ex_sub_epic_def ex_task1_def
        mk_issue_def group_step_def Let_def)
  moreover have "issuetype ex_sub_epic = ''Epic''" "epic_link ex_sub_epic = ''E1''"
    by (simp_all add: ex_sub_epic_def mk_issue_def)
  ultimately show ?thesis
    using epic_only_registered [of "[ex_epic, ex_sub_epic, ex_task1]"] by simp
qed

end
